theory Spec2Isabelle
  imports Complex_Main "HOL-Library.List_Lexorder" "HOL-Library.Char_ord"
begin

section \<open>Python values and exceptions\<close>

text \<open>
  The payloads of the engine (\<^verbatim>\<open>Dict[str, Any]\<close>, task and result data) are JSON-like
  Python values. Dictionaries with string keys are maps.
\<close>

datatype pyval =
    PNone
  | PBool bool
  | PInt int
  | PFloat real
  | PStr string
  | PList "pyval list"
  | PDict "(string \<times> pyval) list"

type_synonym pydict = "string \<rightharpoonup> pyval"

text \<open>The exceptions the modelled code can raise.\<close>

datatype error =
    KeyError string
  | ValueError string
  | IndexError
  | RecursionError
  | FileNotFoundError string
  | NotADirectoryError string
  | IsADirectoryError string
  | FileExistsError string

text \<open>
  Python truthiness of an \<^verbatim>\<open>Optional[str]\<close>: \<^verbatim>\<open>None\<close> and the empty string are falsy.
\<close>

fun truthy_str :: "string option \<Rightarrow> bool" where
  "truthy_str None = False"
| "truthy_str (Some s) = (s \<noteq> [])"

section \<open>core/messaging.py\<close>

datatype MessageType = TASK | RESULT | FEEDBACK | QUERY | RESPONSE | STATUS | ERROR

text \<open>
  The dataclass \<^verbatim>\<open>Message\<close>. The timestamp is the ISO-format string of
  \<^verbatim>\<open>datetime.now().isoformat()\<close>; Python compares strings lexicographically by code point,
  which is the order of \<^typ>\<open>string\<close> here.
\<close>

record message =
  message_id :: string
  message_type :: MessageType
  sender :: string
  recipient :: string
  content :: pydict
  timestamp :: string
  parent_id :: "string option"
  metadata :: pydict

text \<open>The class \<^verbatim>\<open>MessageQueue\<close>: per-agent mailboxes and the global history.\<close>

record MessageQueue =
  queues :: "string \<rightharpoonup> message list"
  history :: "message list"

definition MessageQueue_init :: MessageQueue where
  "MessageQueue_init = \<lparr>queues = Map.empty, history = []\<rparr>"

definition register_agent :: "MessageQueue \<Rightarrow> string \<Rightarrow> MessageQueue" where
  "register_agent q agent_id =
     (if agent_id \<notin> dom (queues q) then q\<lparr>queues := (queues q)(agent_id \<mapsto> [])\<rparr> else q)"

text \<open>
  \<^verbatim>\<open>send_message\<close>: registers sender and recipient, appends to the recipient's mailbox
  (a dictionary lookup, \<^verbatim>\<open>KeyError\<close> on a missing key) and to the history, returns the id.
\<close>

definition send_message :: "MessageQueue \<Rightarrow> message \<Rightarrow> error + (string \<times> MessageQueue)" where
  "send_message q m =
     (let q1 = register_agent q (sender m);
          q2 = register_agent q1 (recipient m)
      in case queues q2 (recipient m) of
           None \<Rightarrow> Inl (KeyError (recipient m))
         | Some box \<Rightarrow>
             Inr (message_id m,
                  q2\<lparr>queues := (queues q2)(recipient m \<mapsto> box @ [m]),
                     history := history q2 @ [m]\<rparr>))"

text \<open>\<^verbatim>\<open>get_messages\<close>: registers the agent, copies its mailbox and empties it.\<close>

definition get_messages :: "MessageQueue \<Rightarrow> string \<Rightarrow> error + (message list \<times> MessageQueue)" where
  "get_messages q agent_id =
     (let q1 = register_agent q agent_id
      in case queues q1 agent_id of
           None \<Rightarrow> Inl (KeyError agent_id)
         | Some box \<Rightarrow> Inr (box, q1\<lparr>queues := (queues q1)(agent_id \<mapsto> [])\<rparr>))"

definition peek_messages :: "MessageQueue \<Rightarrow> string \<Rightarrow> error + (message list \<times> MessageQueue)" where
  "peek_messages q agent_id =
     (let q1 = register_agent q agent_id
      in case queues q1 agent_id of
           None \<Rightarrow> Inl (KeyError agent_id)
         | Some box \<Rightarrow> Inr (box, q1))"

text \<open>A run of \<^verbatim>\<open>send_message\<close> calls, in list order; an exception ends the run.\<close>

fun send_all :: "MessageQueue \<Rightarrow> message list \<Rightarrow> error + MessageQueue" where
  "send_all q [] = Inr q"
| "send_all q (m # ms) =
     (case send_message q m of
        Inl e \<Rightarrow> Inl e
      | Inr (_, q') \<Rightarrow> send_all q' ms)"

text \<open>The mailbox of an agent as the consumer will see it: an unregistered agent has none.\<close>

definition mailbox :: "MessageQueue \<Rightarrow> string \<Rightarrow> message list" where
  "mailbox q a = (case queues q a of None \<Rightarrow> [] | Some box \<Rightarrow> box)"

text \<open>
  \<^verbatim>\<open>get_conversation\<close>, first loop: follow \<^verbatim>\<open>parent_id\<close> upwards while it is truthy and the
  parent is in the history. The loop has no bound (a cycle of parent links never leaves
  it), so not returning is the value \<open>None\<close>.
\<close>

partial_function (option) find_root :: "message list \<Rightarrow> message \<Rightarrow> message option" where
  "find_root hist root_msg =
     (if truthy_str (parent_id root_msg) then
        (case find (\<lambda>m. Some (message_id m) = parent_id root_msg) hist of
           None \<Rightarrow> Some root_msg
         | Some parent \<Rightarrow> find_root hist parent)
      else Some root_msg)"

declare find_root.simps [code]

text \<open>
  \<^verbatim>\<open>_add_children_to_thread\<close>: appends each child and then the child's own descendants.
  The first argument is the number of stack frames the interpreter still allows; a deeper
  recursion raises \<^verbatim>\<open>RecursionError\<close>. \<open>add_children_loop\<close> is the \<^verbatim>\<open>for\<close> loop over the
  children.
\<close>

fun add_children_to_thread :: "nat \<Rightarrow> message list \<Rightarrow> string \<Rightarrow> message list \<Rightarrow> error + message list"
  and add_children_loop :: "nat \<Rightarrow> message list \<Rightarrow> message list \<Rightarrow> message list \<Rightarrow> error + message list"
where
  "add_children_to_thread 0 hist pid thread_msgs = Inl RecursionError"
| "add_children_to_thread (Suc depth) hist pid thread_msgs =
     add_children_loop depth hist (filter (\<lambda>m. parent_id m = Some pid) hist) thread_msgs"
| "add_children_loop depth hist [] thread_msgs = Inr thread_msgs"
| "add_children_loop depth hist (child # children) thread_msgs =
     (case add_children_to_thread depth hist (message_id child) (thread_msgs @ [child]) of
        Inl e \<Rightarrow> Inl e
      | Inr thread_msgs' \<Rightarrow> add_children_loop depth hist children thread_msgs')"

text \<open>
  \<^verbatim>\<open>get_conversation\<close>. \<open>None\<close>: the upward walk never ends; \<open>Some (Inl e)\<close>: an exception;
  \<open>Some (Inr ms)\<close>: the returned thread. \<^verbatim>\<open>list.sort\<close> is stable, as \<^const>\<open>sort_key\<close> is.
\<close>

definition get_conversation :: "nat \<Rightarrow> MessageQueue \<Rightarrow> string \<Rightarrow> (error + message list) option" where
  "get_conversation depth q mid =
     (case find (\<lambda>m. message_id m = mid) (history q) of
        None \<Rightarrow> Some (Inr [])
      | Some msg \<Rightarrow>
          (case find_root (history q) msg of
             None \<Rightarrow> None
           | Some root_msg \<Rightarrow>
               Some (case add_children_to_thread depth (history q) (message_id root_msg) [root_msg] of
                       Inl e \<Rightarrow> Inl e
                     | Inr thread_msgs \<Rightarrow> Inr (sort_key timestamp thread_msgs))))"

text \<open>Three messages of one conversation, used as concrete inputs below.\<close>

definition example_task :: message where
  "example_task = \<lparr>message_id = ''1'', message_type = TASK, sender = ''maestro'',
     recipient = ''outline'', content = Map.empty, timestamp = ''2024-01-01T10:00:00'',
     parent_id = None, metadata = [''task_type'' \<mapsto> PStr ''create_outline'']\<rparr>"

definition example_result :: message where
  "example_result = \<lparr>message_id = ''2'', message_type = RESULT, sender = ''outline'',
     recipient = ''maestro'', content = Map.empty, timestamp = ''2024-01-01T10:05:00'',
     parent_id = Some ''1'', metadata = Map.empty\<rparr>"

definition example_feedback :: message where
  "example_feedback = \<lparr>message_id = ''3'', message_type = FEEDBACK, sender = ''maestro'',
     recipient = ''outline'', content = [''feedback'' \<mapsto> PStr ''good''],
     timestamp = ''2024-01-01T10:06:30'', parent_id = Some ''2'', metadata = Map.empty\<rparr>"

definition example_bus :: MessageQueue where
  "example_bus = \<lparr>queues = Map.empty,
     history = [example_task, example_result, example_feedback]\<rparr>"

section \<open>core/workflow.py\<close>

datatype WorkflowStatus = W_PENDING | W_RUNNING | W_PAUSED | W_COMPLETED | W_FAILED

datatype PhaseStatus = P_PENDING | P_RUNNING | P_PAUSED | P_COMPLETED | P_FAILED

fun WorkflowStatus_value :: "WorkflowStatus \<Rightarrow> string" where
  "WorkflowStatus_value W_PENDING = ''pending''"
| "WorkflowStatus_value W_RUNNING = ''running''"
| "WorkflowStatus_value W_PAUSED = ''paused''"
| "WorkflowStatus_value W_COMPLETED = ''completed''"
| "WorkflowStatus_value W_FAILED = ''failed''"

text \<open>
  Timestamps are the readings of \<^verbatim>\<open>time.time()\<close>, seconds as a number. They are stored and
  tested for truthiness (\<^verbatim>\<open>None\<close> and \<open>0\<close> are falsy); the only arithmetic on them is the
  subtraction in \<^verbatim>\<open>duration\<close>, taken here over the reals.
\<close>

fun truthy_time :: "real option \<Rightarrow> bool" where
  "truthy_time None = False"
| "truthy_time (Some t) = (t \<noteq> 0)"

text \<open>The dataclass \<^verbatim>\<open>Phase\<close>.\<close>

record Phase =
  name :: string
  status :: PhaseStatus
  started_at :: "real option"
  completed_at :: "real option"
  tasks :: pydict
  results :: pydict
  errors :: "string list"

definition Phase_init :: "string \<Rightarrow> Phase" where
  "Phase_init phase_name =
     \<lparr>name = phase_name, status = P_PENDING, started_at = None, completed_at = None,
      tasks = Map.empty, results = Map.empty, errors = []\<rparr>"

text \<open>
  The methods of \<^verbatim>\<open>Phase\<close>. \<^verbatim>\<open>start\<close> and \<^verbatim>\<open>complete\<close> read the clock; the reading is
  their second argument.
\<close>

definition Phase_start :: "Phase \<Rightarrow> real \<Rightarrow> Phase" where
  "Phase_start ph now = ph\<lparr>status := P_RUNNING, started_at := Some now\<rparr>"

definition Phase_complete :: "Phase \<Rightarrow> real \<Rightarrow> Phase" where
  "Phase_complete ph now = ph\<lparr>status := P_COMPLETED, completed_at := Some now\<rparr>"

definition Phase_fail :: "Phase \<Rightarrow> string \<Rightarrow> Phase" where
  "Phase_fail ph err = ph\<lparr>status := P_FAILED, errors := errors ph @ [err]\<rparr>"

definition Phase_pause :: "Phase \<Rightarrow> Phase" where
  "Phase_pause ph = ph\<lparr>status := P_PAUSED\<rparr>"

definition Phase_add_task :: "Phase \<Rightarrow> string \<Rightarrow> pyval \<Rightarrow> Phase" where
  "Phase_add_task ph task_id task_data = ph\<lparr>tasks := (tasks ph)(task_id \<mapsto> task_data)\<rparr>"

definition Phase_add_result :: "Phase \<Rightarrow> string \<Rightarrow> pyval \<Rightarrow> Phase" where
  "Phase_add_result ph task_id result_data = ph\<lparr>results := (results ph)(task_id \<mapsto> result_data)\<rparr>"

text \<open>
  The dataclass \<^verbatim>\<open>BookWorkflow\<close>. Its \<^verbatim>\<open>storage\<close> handle is the pair of files of the book
  directory, kept in the \<open>world\<close> below.
\<close>

record BookWorkflow =
  book_id :: string
  wf_status :: WorkflowStatus
  wf_started_at :: "real option"
  wf_completed_at :: "real option"
  current_phase :: "string option"
  phases :: "string \<rightharpoonup> Phase"
  wf_metadata :: pydict

text \<open>
  What the methods of a workflow read and write besides the object: the clock
  (\<open>clock w n\<close> is the \<open>n\<close>-th reading of \<^verbatim>\<open>time.time()\<close>, \<open>ticks\<close> counts the readings
  taken), and the two files written by \<^verbatim>\<open>save_state\<close>: the pickled object and the metadata
  document.
\<close>

record world =
  workflow :: BookWorkflow
  clock :: "nat \<Rightarrow> real"
  ticks :: nat
  state_file :: "BookWorkflow option"
  metadata_file :: "pydict option"

definition time_time :: "world \<Rightarrow> real \<times> world" where
  "time_time w = (clock w (ticks w), w\<lparr>ticks := Suc (ticks w)\<rparr>)"

text \<open>
  \<^verbatim>\<open>__post_init__\<close>: one fresh \<^verbatim>\<open>Phase\<close> per name of \<^verbatim>\<open>WORKFLOW_PHASES\<close>. The list is a
  constant of \<^verbatim>\<open>config.py\<close>; it is the first argument of every function that reads it.
\<close>

definition post_init :: "string list \<Rightarrow> BookWorkflow \<Rightarrow> BookWorkflow" where
  "post_init WORKFLOW_PHASES bw =
     bw\<lparr>phases := fold (\<lambda>phase_name ps. ps(phase_name \<mapsto> Phase_init phase_name))
                       WORKFLOW_PHASES (phases bw)\<rparr>"

text \<open>\<^verbatim>\<open>BookWorkflow()\<close> with the defaults of the dataclass, for a given book id.\<close>

definition BookWorkflow_init :: "string list \<Rightarrow> string \<Rightarrow> BookWorkflow" where
  "BookWorkflow_init WORKFLOW_PHASES bid =
     post_init WORKFLOW_PHASES
       \<lparr>book_id = bid, wf_status = W_PENDING, wf_started_at = None, wf_completed_at = None,
        current_phase = None, phases = Map.empty, wf_metadata = Map.empty\<rparr>"

fun opt_str :: "string option \<Rightarrow> pyval" where
  "opt_str None = PNone"
| "opt_str (Some s) = PStr s"

fun opt_float :: "real option \<Rightarrow> pyval" where
  "opt_float None = PNone"
| "opt_float (Some t) = PFloat t"

text \<open>
  \<^verbatim>\<open>save_state\<close>: pickles the object and writes the metadata document, a copy of the
  metadata updated with five fields of the workflow. The object itself is not changed.
\<close>

definition save_state :: "world \<Rightarrow> world" where
  "save_state w =
     (let bw = workflow w;
          md = (wf_metadata bw)
                 (''book_id'' \<mapsto> PStr (book_id bw),
                  ''status'' \<mapsto> PStr (WorkflowStatus_value (wf_status bw)),
                  ''current_phase'' \<mapsto> opt_str (current_phase bw),
                  ''started_at'' \<mapsto> opt_float (wf_started_at bw),
                  ''completed_at'' \<mapsto> opt_float (wf_completed_at bw))
      in w\<lparr>state_file := Some bw, metadata_file := Some md\<rparr>)"

text \<open>\<^verbatim>\<open>BookWorkflow.complete\<close>.\<close>

definition complete :: "world \<Rightarrow> world" where
  "complete w =
     (let w1 = w\<lparr>workflow := (workflow w)\<lparr>wf_status := W_COMPLETED\<rparr>\<rparr>;
          (now, w2) = time_time w1;
          w3 = w2\<lparr>workflow := (workflow w2)\<lparr>wf_completed_at := Some now, current_phase := None\<rparr>\<rparr>
      in save_state w3)"

text \<open>
  The phase that \<^verbatim>\<open>if self.current_phase:\<close> takes as active: \<^verbatim>\<open>None\<close> and the empty
  string are falsy.
\<close>

definition active_phase :: "BookWorkflow \<Rightarrow> string option" where
  "active_phase bw = (if truthy_str (current_phase bw) then current_phase bw else None)"

text \<open>\<^verbatim>\<open>list.index\<close>: the first position of a value, \<^verbatim>\<open>ValueError\<close> when there is none.\<close>

fun index_of :: "'a list \<Rightarrow> 'a \<Rightarrow> nat option" where
  "index_of [] x = None"
| "index_of (y # ys) x = (if y = x then Some 0 else map_option Suc (index_of ys x))"

text \<open>
  \<^verbatim>\<open>start_phase\<close> and \<^verbatim>\<open>complete_phase\<close> call each other: \<^verbatim>\<open>start_phase\<close> completes the
  active phase first, and \<^verbatim>\<open>complete_phase\<close> clears \<^verbatim>\<open>current_phase\<close> and starts the next
  phase of \<^verbatim>\<open>WORKFLOW_PHASES\<close>, or completes the workflow after the last one.
\<close>

function start_phase :: "string list \<Rightarrow> world \<Rightarrow> string \<Rightarrow> error + world"
  and complete_phase :: "string list \<Rightarrow> world \<Rightarrow> error + world"
where
  "start_phase WORKFLOW_PHASES w phase_name =
     (if phases (workflow w) phase_name = None then
        Inl (ValueError (''Unknown phase: '' @ phase_name))
      else
        (case (case active_phase (workflow w) of
                 None \<Rightarrow> Inr w
               | Some _ \<Rightarrow> complete_phase WORKFLOW_PHASES w) of
           Inl e \<Rightarrow> Inl e
         | Inr w1 \<Rightarrow>
             (let w2 = w1\<lparr>workflow := (workflow w1)\<lparr>current_phase := Some phase_name\<rparr>\<rparr>
              in case phases (workflow w2) phase_name of
                   None \<Rightarrow> Inl (KeyError phase_name)
                 | Some phase \<Rightarrow>
                     (let (now, w3) = time_time w2;
                          w4 = w3\<lparr>workflow := (workflow w3)
                                 \<lparr>phases := (phases (workflow w3))(phase_name \<mapsto> Phase_start phase now)\<rparr>\<rparr>
                      in Inr (save_state w4)))))"
| "complete_phase WORKFLOW_PHASES w =
     (case active_phase (workflow w) of
        None \<Rightarrow> Inr w
      | Some cp \<Rightarrow>
          (case phases (workflow w) cp of
             None \<Rightarrow> Inl (KeyError cp)
           | Some phase \<Rightarrow>
               (let (now, w1) = time_time w;
                    w2 = w1\<lparr>workflow := (workflow w1)
                           \<lparr>phases := (phases (workflow w1))(cp \<mapsto> Phase_complete phase now)\<rparr>\<rparr>
                in case index_of WORKFLOW_PHASES cp of
                     None \<Rightarrow> Inl (ValueError (cp @ '' is not in list''))
                   | Some current_index \<Rightarrow>
                       if int current_index < int (length WORKFLOW_PHASES) - 1 then
                         (case start_phase WORKFLOW_PHASES
                                 (w2\<lparr>workflow := (workflow w2)\<lparr>current_phase := None\<rparr>\<rparr>)
                                 (WORKFLOW_PHASES ! (current_index + 1)) of
                            Inl e \<Rightarrow> Inl e
                          | Inr w3 \<Rightarrow> Inr (save_state w3))
                       else Inr (save_state (complete w2)))))"
  by pat_completeness auto
termination
  by (relation "measure (\<lambda>x. case x of
         Inl (_, w, _) \<Rightarrow> (if active_phase (workflow w) = None then 0 else 2)
       | Inr _ \<Rightarrow> 1)")
     (auto simp: active_phase_def)

declare start_phase.simps [simp del] complete_phase.simps [simp del]

text \<open>\<^verbatim>\<open>BookWorkflow.start\<close>; \<^verbatim>\<open>WORKFLOW_PHASES[0]\<close> raises \<^verbatim>\<open>IndexError\<close> on an empty list.\<close>

definition start :: "string list \<Rightarrow> world \<Rightarrow> error + world" where
  "start WORKFLOW_PHASES w =
     (let w1 = w\<lparr>workflow := (workflow w)\<lparr>wf_status := W_RUNNING\<rparr>\<rparr>;
          (now, w2) = time_time w1;
          w3 = w2\<lparr>workflow := (workflow w2)\<lparr>wf_started_at := Some now\<rparr>\<rparr>
      in case WORKFLOW_PHASES of
           [] \<Rightarrow> Inl IndexError
         | first_phase # _ \<Rightarrow> start_phase WORKFLOW_PHASES w3 first_phase)"

text \<open>\<^verbatim>\<open>BookWorkflow.fail\<close>.\<close>

definition fail :: "world \<Rightarrow> string \<Rightarrow> error + world" where
  "fail w err =
     (let w1 = w\<lparr>workflow := (workflow w)\<lparr>wf_status := W_FAILED\<rparr>\<rparr>
      in case active_phase (workflow w1) of
           None \<Rightarrow> Inr (save_state w1)
         | Some cp \<Rightarrow>
             (case phases (workflow w1) cp of
                None \<Rightarrow> Inl (KeyError cp)
              | Some phase \<Rightarrow>
                  Inr (save_state
                    (w1\<lparr>workflow := (workflow w1)
                          \<lparr>phases := (phases (workflow w1))(cp \<mapsto> Phase_fail phase err)\<rparr>\<rparr>))))"

text \<open>\<^verbatim>\<open>BookWorkflow.pause\<close>.\<close>

definition pause :: "world \<Rightarrow> error + world" where
  "pause w =
     (let w1 = w\<lparr>workflow := (workflow w)\<lparr>wf_status := W_PAUSED\<rparr>\<rparr>
      in case active_phase (workflow w1) of
           None \<Rightarrow> Inr (save_state w1)
         | Some cp \<Rightarrow>
             (case phases (workflow w1) cp of
                None \<Rightarrow> Inl (KeyError cp)
              | Some phase \<Rightarrow>
                  Inr (save_state
                    (w1\<lparr>workflow := (workflow w1)
                          \<lparr>phases := (phases (workflow w1))(cp \<mapsto> Phase_pause phase)\<rparr>\<rparr>))))"

text \<open>\<^verbatim>\<open>BookWorkflow.resume\<close>.\<close>

definition resume :: "world \<Rightarrow> error + world" where
  "resume w =
     (if wf_status (workflow w) \<noteq> W_PAUSED then Inr w
      else
        (let w1 = w\<lparr>workflow := (workflow w)\<lparr>wf_status := W_RUNNING\<rparr>\<rparr>
         in case active_phase (workflow w1) of
              None \<Rightarrow> Inr (save_state w1)
            | Some cp \<Rightarrow>
                (case phases (workflow w1) cp of
                   None \<Rightarrow> Inl (KeyError cp)
                 | Some phase \<Rightarrow>
                     Inr (save_state
                       (w1\<lparr>workflow := (workflow w1)
                             \<lparr>phases := (phases (workflow w1))(cp \<mapsto> phase\<lparr>status := P_RUNNING\<rparr>)\<rparr>\<rparr>)))))"

text \<open>\<^verbatim>\<open>BookWorkflow.add_task\<close> and \<^verbatim>\<open>BookWorkflow.add_result\<close>.\<close>

definition add_task :: "world \<Rightarrow> string \<Rightarrow> pyval \<Rightarrow> error + world" where
  "add_task w task_id task_data =
     (case active_phase (workflow w) of
        None \<Rightarrow> Inr w
      | Some cp \<Rightarrow>
          (case phases (workflow w) cp of
             None \<Rightarrow> Inl (KeyError cp)
           | Some phase \<Rightarrow>
               Inr (save_state
                 (w\<lparr>workflow := (workflow w)
                      \<lparr>phases := (phases (workflow w))(cp \<mapsto> Phase_add_task phase task_id task_data)\<rparr>\<rparr>))))"

definition add_result :: "world \<Rightarrow> string \<Rightarrow> pyval \<Rightarrow> error + world" where
  "add_result w task_id result_data =
     (case active_phase (workflow w) of
        None \<Rightarrow> Inr w
      | Some cp \<Rightarrow>
          (case phases (workflow w) cp of
             None \<Rightarrow> Inl (KeyError cp)
           | Some phase \<Rightarrow>
               Inr (save_state
                 (w\<lparr>workflow := (workflow w)
                      \<lparr>phases := (phases (workflow w))(cp \<mapsto> Phase_add_result phase task_id result_data)\<rparr>\<rparr>))))"




text \<open>
  The calls a client can make on a workflow, and a run of such calls in order. An
  exception ends the run, as it would end the caller.
\<close>

datatype operation =
    Start
  | Complete_phase
  | Start_phase string
  | Pause
  | Resume
  | Fail string
  | Add_task string pyval
  | Add_result string pyval

fun apply_op :: "string list \<Rightarrow> world \<Rightarrow> operation \<Rightarrow> error + world" where
  "apply_op WORKFLOW_PHASES w Start = start WORKFLOW_PHASES w"
| "apply_op WORKFLOW_PHASES w Complete_phase = complete_phase WORKFLOW_PHASES w"
| "apply_op WORKFLOW_PHASES w (Start_phase phase_name) = start_phase WORKFLOW_PHASES w phase_name"
| "apply_op WORKFLOW_PHASES w Pause = pause w"
| "apply_op WORKFLOW_PHASES w Resume = resume w"
| "apply_op WORKFLOW_PHASES w (Fail err) = fail w err"
| "apply_op WORKFLOW_PHASES w (Add_task task_id task_data) = add_task w task_id task_data"
| "apply_op WORKFLOW_PHASES w (Add_result task_id result_data) = add_result w task_id result_data"

fun run :: "string list \<Rightarrow> world \<Rightarrow> operation list \<Rightarrow> error + world" where
  "run WORKFLOW_PHASES w [] = Inr w"
| "run WORKFLOW_PHASES w (x # xs) =
     (case apply_op WORKFLOW_PHASES w x of
        Inl e \<Rightarrow> Inl e
      | Inr w' \<Rightarrow> run WORKFLOW_PHASES w' xs)"

text \<open>A freshly constructed workflow in its surroundings: nothing saved yet.\<close>

definition new_world :: "string list \<Rightarrow> string \<Rightarrow> (nat \<Rightarrow> real) \<Rightarrow> world" where
  "new_world WORKFLOW_PHASES bid clk =
     \<lparr>workflow = BookWorkflow_init WORKFLOW_PHASES bid, clock = clk, ticks = 0,
      state_file = None, metadata_file = None\<rparr>"

text \<open>The three-phase configuration and the workflow used as concrete inputs below.\<close>

definition example_phases :: "string list" where
  "example_phases = [''outline'', ''draft'', ''polish'']"

definition example_clock :: "nat \<Rightarrow> real" where
  "example_clock n = 1000 + real n"

definition example_world :: world where
  "example_world = new_world example_phases ''book_20240101_100000'' example_clock"

text \<open>The example workflow after a run of calls (the example itself if the run raises).\<close>

definition world_after :: "operation list \<Rightarrow> world" where
  "world_after ops =
     (case run example_phases example_world ops of
        Inl _ \<Rightarrow> example_world
      | Inr w \<Rightarrow> w)"

section \<open>core/storage.py\<close>

text \<open>
  \<^verbatim>\<open>os.path.join\<close> for two POSIX path components: an absolute second component replaces
  the first, otherwise the components are joined with one separator.
\<close>

definition os_path_join :: "string \<Rightarrow> string \<Rightarrow> string" where
  "os_path_join a b =
     (if b \<noteq> [] \<and> hd b = CHR ''/'' then b
      else if a = [] \<or> last a = CHR ''/'' then a @ b
      else a @ ''/'' @ b)"

text \<open>
  The file system. A path string is read as its components between separators and is
  resolved from the root (a leading separator, written as the component \<open>/\<close>) or from
  the working directory (the empty location). A location is the list of directory entries
  passed on the way; \<open>.\<close> and empty components stay in place and \<open>..\<close> goes to the
  parent. There are no symbolic links, and names are compared as they are written.
\<close>

type_synonym location = "string list"

record filesystem =
  files :: "location \<rightharpoonup> string"
  dirs :: "location set"

fun split_path :: "string \<Rightarrow> string list" where
  "split_path [] = [[]]"
| "split_path (c # cs) =
     (if c = CHR ''/'' then [] # split_path cs
      else (case split_path cs of
              [] \<Rightarrow> [[c]]
            | x # xs \<Rightarrow> (c # x) # xs))"

definition start_location :: "string \<Rightarrow> location" where
  "start_location p = (if p \<noteq> [] \<and> hd p = CHR ''/'' then [''/''] else [])"

definition parent :: "location \<Rightarrow> location" where
  "parent cur =
     (if cur = [''/''] then cur
      else if cur = [] \<or> last cur = ''..'' then cur @ [''..'']
      else butlast cur)"

text \<open>
  The directories: those created so far, the root, the working directory and the
  directories above it.
\<close>

definition is_dir :: "filesystem \<Rightarrow> location \<Rightarrow> bool" where
  "is_dir fs loc = (loc \<in> dirs fs \<or> loc = [''/''] \<or> list_all (\<lambda>c. c = ''..'') loc)"

text \<open>
  Resolving the directory part of a path: every named component passed must be a
  directory (\<^verbatim>\<open>NotADirectoryError\<close> when it is a file, \<^verbatim>\<open>FileNotFoundError\<close> when it does
  not exist).
\<close>

fun walk :: "filesystem \<Rightarrow> location \<Rightarrow> string list \<Rightarrow> error + location" where
  "walk fs cur [] = Inr cur"
| "walk fs cur (c # cs) =
     (if c = [] \<or> c = ''.'' then walk fs cur cs
      else if c = ''..'' then walk fs (parent cur) cs
      else if is_dir fs (cur @ [c]) then walk fs (cur @ [c]) cs
      else if files fs (cur @ [c]) \<noteq> None then Inl (NotADirectoryError c)
      else Inl (FileNotFoundError c))"

text \<open>
  \<^verbatim>\<open>os.makedirs(path, exist_ok=True)\<close>: creates the missing directories along the path. An
  exception leaves the directories created before it, so the error comes with the file
  system as it then is.
\<close>

fun makedirs_from ::
  "filesystem \<Rightarrow> location \<Rightarrow> string list \<Rightarrow> (error \<times> filesystem) + filesystem" where
  "makedirs_from fs cur [] = Inr fs"
| "makedirs_from fs cur (c # cs) =
     (if c = [] \<or> c = ''.'' then makedirs_from fs cur cs
      else if c = ''..'' then makedirs_from fs (parent cur) cs
      else if is_dir fs (cur @ [c]) then makedirs_from fs (cur @ [c]) cs
      else if files fs (cur @ [c]) \<noteq> None then
        Inl (if list_all (\<lambda>x. x = [] \<or> x = ''.'') cs then FileExistsError c
             else NotADirectoryError c, fs)
      else makedirs_from (fs\<lparr>dirs := insert (cur @ [c]) (dirs fs)\<rparr>) (cur @ [c]) cs)"

definition os_makedirs :: "filesystem \<Rightarrow> string \<Rightarrow> (error \<times> filesystem) + filesystem" where
  "os_makedirs fs p =
     (if p = [] then Inl (FileNotFoundError p, fs)
      else makedirs_from fs (start_location p) (split_path p))"

text \<open>
  \<^verbatim>\<open>open(path, 'w')\<close> followed by \<^verbatim>\<open>write\<close>: the directory part must resolve and the file
  must not be a directory. On POSIX the text is written as it is.
\<close>

definition write_text :: "filesystem \<Rightarrow> string \<Rightarrow> string \<Rightarrow> (error \<times> filesystem) + filesystem" where
  "write_text fs p txt =
     (let comps = split_path p
      in case walk fs (start_location p) (butlast comps) of
           Inl e \<Rightarrow> Inl (e, fs)
         | Inr d \<Rightarrow>
             (let f = last comps
              in if p = [] then Inl (FileNotFoundError p, fs)
                 else if f = [] \<or> f = ''.'' \<or> f = ''..'' then Inl (IsADirectoryError p, fs)
                 else if is_dir fs (d @ [f]) then Inl (IsADirectoryError p, fs)
                 else Inr (fs\<lparr>files := (files fs)(d @ [f] \<mapsto> txt)\<rparr>)))"

text \<open>\<^verbatim>\<open>os.path.exists\<close>: false whenever the path does not resolve.\<close>

definition os_path_exists :: "filesystem \<Rightarrow> string \<Rightarrow> bool" where
  "os_path_exists fs p =
     (let comps = split_path p
      in case walk fs (start_location p) (butlast comps) of
           Inl e \<Rightarrow> False
         | Inr d \<Rightarrow>
             (let f = last comps
              in if p = [] then False
                 else if f = [] \<or> f = ''.'' \<or> f = ''..'' then True
                 else is_dir fs (d @ [f]) \<or> files fs (d @ [f]) \<noteq> None))"

text \<open>
  Reading a file opened in text mode translates the line endings \<^verbatim>\<open>\r\n\<close> and \<^verbatim>\<open>\r\<close> to
  \<^verbatim>\<open>\n\<close> (universal newlines).
\<close>

fun universal_newlines :: "string \<Rightarrow> string" where
  "universal_newlines [] = []"
| "universal_newlines [c] = (if c = CHR 0x0D then [CHR 0x0A] else [c])"
| "universal_newlines (c # d # cs) =
     (if c = CHR 0x0D then
        (if d = CHR 0x0A then CHR 0x0A # universal_newlines cs
         else CHR 0x0A # universal_newlines (d # cs))
      else c # universal_newlines (d # cs))"

definition read_text :: "filesystem \<Rightarrow> string \<Rightarrow> error + string" where
  "read_text fs p =
     (let comps = split_path p
      in case walk fs (start_location p) (butlast comps) of
           Inl e \<Rightarrow> Inl e
         | Inr d \<Rightarrow>
             (let f = last comps
              in if p = [] then Inl (FileNotFoundError p)
                 else if f = [] \<or> f = ''.'' \<or> f = ''..'' then Inl (IsADirectoryError p)
                 else if is_dir fs (d @ [f]) then Inl (IsADirectoryError p)
                 else (case files fs (d @ [f]) of
                         None \<Rightarrow> Inl (FileNotFoundError p)
                       | Some txt \<Rightarrow> Inr (universal_newlines txt))))"

text \<open>
  The paths kept by a \<^verbatim>\<open>BookStorage\<close>. \<^verbatim>\<open>BOOK_STORAGE_DIR\<close> is a constant of
  \<^verbatim>\<open>config.py\<close> and is an argument of the constructor here. The constructor creates the
  four directories.
\<close>

record BookStorage =
  storage_book_id :: string
  book_dir :: string
  components_dir :: string
  versions_dir :: string
  images_dir :: string
  storage_metadata_file :: string
  storage_state_file :: string

definition BookStorage_paths :: "string \<Rightarrow> string \<Rightarrow> BookStorage" where
  "BookStorage_paths BOOK_STORAGE_DIR bid =
     (let bd = os_path_join BOOK_STORAGE_DIR bid
      in \<lparr>storage_book_id = bid,
          book_dir = bd,
          components_dir = os_path_join bd ''components'',
          versions_dir = os_path_join bd ''versions'',
          images_dir = os_path_join bd ''images'',
          storage_metadata_file = os_path_join bd ''metadata.json'',
          storage_state_file = os_path_join bd ''state.pickle''\<rparr>)"

fun makedirs_all :: "filesystem \<Rightarrow> string list \<Rightarrow> (error \<times> filesystem) + filesystem" where
  "makedirs_all fs [] = Inr fs"
| "makedirs_all fs (directory # rest) =
     (case os_makedirs fs directory of
        Inl e \<Rightarrow> Inl e
      | Inr fs' \<Rightarrow> makedirs_all fs' rest)"

definition BookStorage_init ::
  "string \<Rightarrow> filesystem \<Rightarrow> string \<Rightarrow> (error \<times> filesystem) + (BookStorage \<times> filesystem)" where
  "BookStorage_init BOOK_STORAGE_DIR fs bid =
     (let self = BookStorage_paths BOOK_STORAGE_DIR bid
      in case makedirs_all fs [book_dir self, components_dir self, versions_dir self, images_dir self] of
           Inl e \<Rightarrow> Inl e
         | Inr fs' \<Rightarrow> Inr (self, fs'))"

text \<open>
  \<^verbatim>\<open>save_component\<close>. The version label defaults, when it is \<^verbatim>\<open>None\<close> or empty, to
  \<^verbatim>\<open>datetime.now().strftime("%Y%m%d_%H%M%S")\<close>: the argument \<open>stamp\<close> is that reading of
  the clock. The component directory is created, the content is written to
  \<^verbatim>\<open>current.txt\<close> first and to the version's file second, and the path of \<^verbatim>\<open>current.txt\<close>
  is returned. An exception of a later step leaves what the earlier steps wrote.
\<close>

definition save_component ::
  "BookStorage \<Rightarrow> filesystem \<Rightarrow> string \<Rightarrow> string \<Rightarrow> string \<Rightarrow> string option
     \<Rightarrow> (error \<times> filesystem) + (string \<times> filesystem)" where
  "save_component self fs stamp component_name content_text version =
     (let version' = (case version of
                        None \<Rightarrow> stamp
                      | Some v \<Rightarrow> if v = [] then stamp else v);
          component_dir = os_path_join (components_dir self) component_name
      in case os_makedirs fs component_dir of
           Inl e \<Rightarrow> Inl e
         | Inr fs1 \<Rightarrow>
             (let current_file = os_path_join component_dir ''current.txt''
              in case write_text fs1 current_file content_text of
                   Inl e \<Rightarrow> Inl e
                 | Inr fs2 \<Rightarrow>
                     (let version_file = os_path_join component_dir (version' @ ''.txt'')
                      in case write_text fs2 version_file content_text of
                           Inl e \<Rightarrow> Inl e
                         | Inr fs3 \<Rightarrow> Inr (current_file, fs3))))"

text \<open>
  \<^verbatim>\<open>load_component\<close>: \<^verbatim>\<open>None\<close> when the path does not exist, the text of the file
  otherwise. The default of the parameter \<^verbatim>\<open>version\<close> is \<^verbatim>\<open>"current"\<close>.
\<close>

definition load_component ::
  "BookStorage \<Rightarrow> filesystem \<Rightarrow> string \<Rightarrow> string \<Rightarrow> error + string option" where
  "load_component self fs component_name version =
     (let component_dir = os_path_join (components_dir self) component_name;
          file_path = os_path_join component_dir (version @ ''.txt'')
      in if \<not> os_path_exists fs file_path then Inr None
         else (case read_text fs file_path of
                 Inl e \<Rightarrow> Inl e
               | Inr txt \<Rightarrow> Inr (Some txt)))"

definition load_current :: "BookStorage \<Rightarrow> filesystem \<Rightarrow> string \<Rightarrow> error + string option" where
  "load_current self fs component_name = load_component self fs component_name ''current''"

text \<open>A storage on an empty file system, used as concrete input below.\<close>

definition empty_filesystem :: filesystem where
  "empty_filesystem = \<lparr>files = Map.empty, dirs = {}\<rparr>"

definition example_storage :: BookStorage where
  "example_storage = BookStorage_paths ''books'' ''book_1''"

definition example_filesystem :: filesystem where
  "example_filesystem =
     (case BookStorage_init ''books'' empty_filesystem ''book_1'' of
        Inl _ \<Rightarrow> empty_filesystem
      | Inr (_, fs) \<Rightarrow> fs)"

text \<open>The file system after a call of \<^verbatim>\<open>save_component\<close> on the example storage, returned or raised.\<close>

definition saved :: "filesystem \<Rightarrow> string \<Rightarrow> string \<Rightarrow> string \<Rightarrow> string option \<Rightarrow> filesystem" where
  "saved fs stamp component_name content_text version =
     (case save_component example_storage fs stamp component_name content_text version of
        Inl (_, fs') \<Rightarrow> fs'
      | Inr (_, fs') \<Rightarrow> fs')"

section \<open>Message bus: delivery\<close>

lemma mailbox_register_agent: "mailbox (register_agent q a) b = mailbox q b"
  by (auto simp: mailbox_def register_agent_def domIff split: option.splits)

lemma queues_register_agent_self:
  "queues (register_agent q a) a = Some (mailbox q a)"
  by (auto simp: mailbox_def register_agent_def domIff split: option.splits)

lemma queues_register_agent_registered:
  "queues q b = Some box \<Longrightarrow> queues (register_agent q a) b = Some box"
  by (auto simp: register_agent_def)

lemma history_register_agent: "history (register_agent q a) = history q"
  by (simp add: register_agent_def)

lemma send_message_returns:
  "\<exists>q'. send_message q m = Inr (message_id m, q')
      \<and> history q' = history q @ [m]
      \<and> (\<forall>a. mailbox q' a = (if a = recipient m then mailbox q a @ [m] else mailbox q a))"
proof -
  let ?q2 = "register_agent (register_agent q (sender m)) (recipient m)"
  have box: "queues ?q2 (recipient m) = Some (mailbox q (recipient m))"
    by (simp add: queues_register_agent_self mailbox_register_agent)
  have other: "mailbox ?q2 a = mailbox q a" for a
    by (simp add: mailbox_register_agent)
  show ?thesis
    using box other
    by (simp add: send_message_def Let_def history_register_agent mailbox_def)
qed

lemma send_all_returns:
  "\<exists>q'. send_all q ms = Inr q'
      \<and> history q' = history q @ ms
      \<and> (\<forall>a. mailbox q' a = mailbox q a @ filter (\<lambda>m. recipient m = a) ms)"
proof (induction ms arbitrary: q)
  case Nil
  show ?case by simp
next
  case (Cons m ms)
  obtain q1 where s: "send_message q m = Inr (message_id m, q1)"
    and h: "history q1 = history q @ [m]"
    and b: "\<forall>a. mailbox q1 a = (if a = recipient m then mailbox q a @ [m] else mailbox q a)"
    using send_message_returns [of q m] by blast
  obtain q' where r: "send_all q1 ms = Inr q'"
    and h': "history q' = history q1 @ ms"
    and b': "\<forall>a. mailbox q' a = mailbox q1 a @ filter (\<lambda>m. recipient m = a) ms"
    using Cons.IH [of q1] by blast
  show ?case
    using s r h h' b b' by auto
qed

lemma get_messages_returns:
  "\<exists>q'. get_messages q a = Inr (mailbox q a, q')
      \<and> history q' = history q
      \<and> (\<forall>b. mailbox q' b = (if b = a then [] else mailbox q b))"
proof -
  have "queues (register_agent q a) a = Some (mailbox q a)"
    by (rule queues_register_agent_self)
  moreover have "mailbox (register_agent q a) b = mailbox q b" for b
    by (rule mailbox_register_agent)
  ultimately show ?thesis
    by (simp add: get_messages_def Let_def history_register_agent mailbox_def)
qed

text \<open>
  C6. A message sent to a recipient whose mailbox is empty is the only element of the next
  \<^verbatim>\<open>get_messages\<close> for that recipient, equal to the sent message in every field, and the
  call after that returns the empty list. For any run of sends to one recipient, starting
  from an empty mailbox, \<^verbatim>\<open>get_messages\<close> returns the messages in the order they were sent
  and leaves the mailbox empty. None of the calls raises.
\<close>

theorem send_then_receive_fifo:
  assumes empty: "mailbox q r = []"
  shows "(recipient m = r \<longrightarrow>
            (\<exists>q1 q2 q3. send_message q m = Inr (message_id m, q1)
               \<and> get_messages q1 r = Inr ([m], q2)
               \<and> get_messages q2 r = Inr ([], q3)))
       \<and> ((\<forall>x \<in> set ms. recipient x = r) \<longrightarrow>
            (\<exists>q1 q2. send_all q ms = Inr q1
               \<and> get_messages q1 r = Inr (ms, q2)
               \<and> mailbox q2 r = []))"
proof (intro conjI impI)
  assume rm: "recipient m = r"
  obtain q1 where s: "send_message q m = Inr (message_id m, q1)"
    and b1: "\<forall>a. mailbox q1 a = (if a = recipient m then mailbox q a @ [m] else mailbox q a)"
    using send_message_returns [of q m] by blast
  have m1: "mailbox q1 r = [m]"
    using b1 rm empty by simp
  obtain q2 where g2: "get_messages q1 r = Inr (mailbox q1 r, q2)"
    and b2: "\<forall>b. mailbox q2 b = (if b = r then [] else mailbox q1 b)"
    using get_messages_returns [of q1 r] by blast
  have m2: "mailbox q2 r = []"
    using b2 by simp
  obtain q3 where g3: "get_messages q2 r = Inr (mailbox q2 r, q3)"
    using get_messages_returns [of q2 r] by blast
  show "\<exists>q1 q2 q3. send_message q m = Inr (message_id m, q1)
          \<and> get_messages q1 r = Inr ([m], q2)
          \<and> get_messages q2 r = Inr ([], q3)"
    using s g2 g3 m1 m2 by auto
next
  assume all: "\<forall>x \<in> set ms. recipient x = r"
  obtain q1 where s: "send_all q ms = Inr q1"
    and b1: "\<forall>a. mailbox q1 a = mailbox q a @ filter (\<lambda>m. recipient m = a) ms"
    using send_all_returns [of q ms] by blast
  have "filter (\<lambda>m. recipient m = r) ms = ms"
    using all by (simp add: filter_id_conv)
  then have m1: "mailbox q1 r = ms"
    using b1 empty by simp
  obtain q2 where g2: "get_messages q1 r = Inr (mailbox q1 r, q2)"
    and b2: "\<forall>b. mailbox q2 b = (if b = r then [] else mailbox q1 b)"
    using get_messages_returns [of q1 r] by blast
  show "\<exists>q1 q2. send_all q ms = Inr q1
          \<and> get_messages q1 r = Inr (ms, q2)
          \<and> mailbox q2 r = []"
    using s g2 b2 m1 by auto
qed

theorem send_then_receive_fifo_witness:
  "mailbox MessageQueue_init ''outline'' = []
   \<and> recipient example_task = ''outline''
   \<and> recipient example_feedback = ''outline''
   \<and> (\<exists>q1 q2 q3. send_message MessageQueue_init example_task = Inr (''1'', q1)
         \<and> get_messages q1 ''outline'' = Inr ([example_task], q2)
         \<and> get_messages q2 ''outline'' = Inr ([], q3))
   \<and> (\<exists>q1 q2. send_all MessageQueue_init [example_task, example_feedback] = Inr q1
         \<and> get_messages q1 ''outline'' = Inr ([example_task, example_feedback], q2)
         \<and> mailbox q2 ''outline'' = [])"
proof -
  have e: "mailbox MessageQueue_init ''outline'' = []"
    by (simp add: mailbox_def MessageQueue_init_def)
  have r: "recipient example_task = ''outline''" "recipient example_feedback = ''outline''"
    "message_id example_task = ''1''"
    by (simp_all add: example_task_def example_feedback_def)
  show ?thesis
    using send_then_receive_fifo [OF e, of example_task "[example_task, example_feedback]"] e r
    by simp
qed

section \<open>Message bus: conversation threads\<close>

lemma find_by_id:
  "distinct (map message_id h) \<Longrightarrow> m \<in> set h \<Longrightarrow> find (\<lambda>x. message_id x = message_id m) h = Some m"
  by (induction h) (auto simp: image_iff)

lemma find_absent:
  "mid \<notin> message_id ` set h \<Longrightarrow> find (\<lambda>x. message_id x = mid) h = None"
  by (induction h) auto

lemma filter_only:
  "distinct h \<Longrightarrow> m \<in> set h \<Longrightarrow> (\<forall>x \<in> set h. P x \<longleftrightarrow> x = m) \<Longrightarrow> filter P h = [m]"
  by (induction h) (auto simp: filter_empty_conv)

lemma find_root_stop:
  "\<not> truthy_str (parent_id m) \<or> (\<forall>x \<in> set h. Some (message_id x) \<noteq> parent_id m) \<Longrightarrow> find_root h m = Some m"
proof (cases "truthy_str (parent_id m)")
  case False
  then show ?thesis by (subst find_root.simps) simp
next
  case True
  assume "\<not> truthy_str (parent_id m) \<or> (\<forall>x \<in> set h. Some (message_id x) \<noteq> parent_id m)"
  with True have "find (\<lambda>x. Some (message_id x) = parent_id m) h = None"
    by (simp add: find_None_iff)
  then show ?thesis by (subst find_root.simps) simp
qed

lemma find_root_step:
  assumes "distinct (map message_id h)" "p \<in> set h" "parent_id m = Some (message_id p)" "message_id p \<noteq> []"
  shows "find_root h m = find_root h p"
proof -
  have "find (\<lambda>x. Some (message_id x) = parent_id m) h = Some p"
    using find_by_id [OF assms(1,2)] assms(3) by simp
  then show ?thesis
    using assms(3,4) by (subst find_root.simps) simp
qed

text \<open>
  C7. In a history with unique message ids that holds a Task \<open>msg1\<close>, a Result \<open>msg2\<close>
  answering it and a Feedback \<open>msg3\<close> answering the Result (ids non-empty, so the parent
  links are truthy), with no other message answering one of the three,
  \<^verbatim>\<open>get_conversation\<close> returns the three messages sorted by timestamp for each of the
  three ids: \<open>[msg1, msg2, msg3]\<close> when the timestamps follow the chain. The upward walk
  ends at \<open>msg1\<close> whether its \<^verbatim>\<open>parent_id\<close> is unset or names a message that is not in
  the history. The recursion over the children needs three stack frames. For an id that
  is not in the history the result is the empty list.
\<close>

theorem conversation_thread_chain:
  assumes ids: "distinct (map message_id (history q))"
    and mem: "msg1 \<in> set (history q)" "msg2 \<in> set (history q)" "msg3 \<in> set (history q)"
    and kinds: "message_type msg1 = TASK" "message_type msg2 = RESULT" "message_type msg3 = FEEDBACK"
    and p2: "parent_id msg2 = Some (message_id msg1)"
    and p3: "parent_id msg3 = Some (message_id msg2)"
    and nonempty: "message_id msg1 \<noteq> []" "message_id msg2 \<noteq> []"
    and root: "\<not> truthy_str (parent_id msg1) \<or> (\<forall>x \<in> set (history q). Some (message_id x) \<noteq> parent_id msg1)"
    and only: "\<forall>x \<in> set (history q).
                 parent_id x \<in> {Some (message_id msg1), Some (message_id msg2), Some (message_id msg3)}
                 \<longrightarrow> x = msg2 \<or> x = msg3"
    and depth: "3 \<le> depth"
  shows "(\<forall>mid \<in> {message_id msg1, message_id msg2, message_id msg3}.
            get_conversation depth q mid = Some (Inr (sort_key timestamp [msg1, msg2, msg3]))
            \<and> (timestamp msg1 \<le> timestamp msg2 \<and> timestamp msg2 \<le> timestamp msg3 \<longrightarrow>
                 get_conversation depth q mid = Some (Inr [msg1, msg2, msg3])))
       \<and> (\<forall>mid. mid \<notin> message_id ` set (history q) \<longrightarrow> get_conversation depth q mid = Some (Inr []))"
proof -
  let ?h = "history q"
  have dh: "distinct ?h" using ids by (simp add: distinct_map)
  have r1: "find_root ?h msg1 = Some msg1" using root by (rule find_root_stop)
  have r2: "find_root ?h msg2 = Some msg1"
    using find_root_step [OF ids mem(1) p2 nonempty(1)] r1 by simp
  have r3: "find_root ?h msg3 = Some msg1"
    using find_root_step [OF ids mem(2) p3 nonempty(2)] r2 by simp
  have n12: "message_id msg1 \<noteq> message_id msg2"
  proof
    assume e: "message_id msg1 = message_id msg2"
    then have "msg1 = msg2" using ids mem by (simp add: distinct_map inj_on_def)
    then have "parent_id msg1 = Some (message_id msg1)" using p2 by simp
    then show False using root mem(1) nonempty(1) by auto
  qed
  have n23: "message_id msg2 \<noteq> message_id msg3"
  proof
    assume e: "message_id msg2 = message_id msg3"
    then have "msg2 = msg3" using ids mem by (simp add: distinct_map inj_on_def)
    then show False using p2 p3 n12 by simp
  qed
  have n13: "message_id msg1 \<noteq> message_id msg3"
  proof
    assume e: "message_id msg1 = message_id msg3"
    then have "msg1 = msg3" using ids mem by (simp add: distinct_map inj_on_def)
    then have "parent_id msg1 = Some (message_id msg2)" using p3 by simp
    then show False using root mem(2) nonempty(2) by auto
  qed
  have c1: "filter (\<lambda>m. parent_id m = Some (message_id msg1)) ?h = [msg2]"
  proof (rule filter_only [OF dh mem(2)], rule ballI)
    fix x assume x: "x \<in> set ?h"
    show "parent_id x = Some (message_id msg1) \<longleftrightarrow> x = msg2"
    proof
      assume a: "parent_id x = Some (message_id msg1)"
      then have "x = msg2 \<or> x = msg3" using only x by simp
      moreover have "x \<noteq> msg3" using a p3 n12 by auto
      ultimately show "x = msg2" by simp
    next
      assume "x = msg2" then show "parent_id x = Some (message_id msg1)" using p2 by simp
    qed
  qed
  have c2: "filter (\<lambda>m. parent_id m = Some (message_id msg2)) ?h = [msg3]"
  proof (rule filter_only [OF dh mem(3)], rule ballI)
    fix x assume x: "x \<in> set ?h"
    show "parent_id x = Some (message_id msg2) \<longleftrightarrow> x = msg3"
    proof
      assume a: "parent_id x = Some (message_id msg2)"
      then have "x = msg2 \<or> x = msg3" using only x by simp
      moreover have "x \<noteq> msg2" using a p2 n12 by auto
      ultimately show "x = msg3" by simp
    next
      assume "x = msg3" then show "parent_id x = Some (message_id msg2)" using p3 by simp
    qed
  qed
  have c3: "filter (\<lambda>m. parent_id m = Some (message_id msg3)) ?h = []"
  proof -
    have "parent_id x \<noteq> Some (message_id msg3)" if x: "x \<in> set ?h" for x
    proof
      assume a: "parent_id x = Some (message_id msg3)"
      then have "x = msg2 \<or> x = msg3" using only x by simp
      then show False using a p2 p3 n13 n23 by auto
    qed
    then show ?thesis by (simp add: filter_empty_conv)
  qed
  obtain d where d: "depth = Suc (Suc (Suc d))"
    using depth by (cases depth rule: nat.exhaust; simp; rename_tac a; case_tac a; simp; rename_tac b; case_tac b; simp)
  have thread: "add_children_to_thread depth ?h (message_id msg1) [msg1] = Inr [msg1, msg2, msg3]"
    by (simp add: d c1 c2 c3)
  have f: "find (\<lambda>m. message_id m = message_id x) ?h = Some x" if "x \<in> set ?h" for x
    using find_by_id [OF ids that] .
  have g: "get_conversation depth q (message_id x) = Some (Inr (sort_key timestamp [msg1, msg2, msg3]))"
    if "x \<in> {msg1, msg2, msg3}" for x
  proof -
    have "x \<in> set ?h" using that mem by auto
    moreover have "find_root ?h x = Some msg1" using that r1 r2 r3 by auto
    ultimately show ?thesis
      using thread by (simp only: get_conversation_def f option.case sum.case)
  qed
  have s: "timestamp msg1 \<le> timestamp msg2 \<Longrightarrow> timestamp msg2 \<le> timestamp msg3 \<Longrightarrow>
     sort_key timestamp [msg1, msg2, msg3] = [msg1, msg2, msg3]"
    by simp
  have none: "get_conversation depth q mid = Some (Inr [])" if "mid \<notin> message_id ` set ?h" for mid
    using find_absent [OF that] by (simp add: get_conversation_def)
  show ?thesis
    using g [of msg1] g [of msg2] g [of msg3] s none by simp
qed

theorem conversation_thread_chain_witness:
  "distinct (map message_id (history example_bus))
   \<and> example_task \<in> set (history example_bus)
   \<and> example_result \<in> set (history example_bus)
   \<and> example_feedback \<in> set (history example_bus)
   \<and> message_type example_task = TASK \<and> message_type example_result = RESULT
   \<and> message_type example_feedback = FEEDBACK
   \<and> parent_id example_result = Some (message_id example_task)
   \<and> parent_id example_feedback = Some (message_id example_result)
   \<and> message_id example_task \<noteq> [] \<and> message_id example_result \<noteq> []
   \<and> \<not> truthy_str (parent_id example_task)
   \<and> (3::nat) \<le> 3
   \<and> get_conversation 3 example_bus ''1'' = Some (Inr [example_task, example_result, example_feedback])
   \<and> get_conversation 3 example_bus ''2'' = Some (Inr [example_task, example_result, example_feedback])
   \<and> get_conversation 3 example_bus ''3'' = Some (Inr [example_task, example_result, example_feedback])
   \<and> get_conversation 3 example_bus ''4'' = Some (Inr [])"
proof -
  have h: "history example_bus = [example_task, example_result, example_feedback]"
    by (simp add: example_bus_def)
  have i: "message_id example_task = ''1''" "message_id example_result = ''2''"
    "message_id example_feedback = ''3''"
    by (simp_all add: example_task_def example_result_def example_feedback_def)
  have p: "parent_id example_task = None" "parent_id example_result = Some ''1''"
    "parent_id example_feedback = Some ''2''"
    by (simp_all add: example_task_def example_result_def example_feedback_def)
  have k: "message_type example_task = TASK" "message_type example_result = RESULT"
    "message_type example_feedback = FEEDBACK"
    by (simp_all add: example_task_def example_result_def example_feedback_def)
  have t: "timestamp example_task \<le> timestamp example_result"
    "timestamp example_result \<le> timestamp example_feedback"
    by (simp_all add: example_task_def example_result_def example_feedback_def)
  have a1: "distinct (map message_id (history example_bus))" by (simp add: h i)
  have a2: "example_task \<in> set (history example_bus)" "example_result \<in> set (history example_bus)"
    "example_feedback \<in> set (history example_bus)" by (simp_all add: h)
  have a3: "parent_id example_result = Some (message_id example_task)"
    "parent_id example_feedback = Some (message_id example_result)" by (simp_all add: i p)
  have a4: "message_id example_task \<noteq> []" "message_id example_result \<noteq> []" by (simp_all add: i)
  have a5: "\<not> truthy_str (parent_id example_task)" by (simp add: p)
  then have a5': "\<not> truthy_str (parent_id example_task)
      \<or> (\<forall>x \<in> set (history example_bus). Some (message_id x) \<noteq> parent_id example_task)" ..
  have a6: "\<forall>x \<in> set (history example_bus).
      parent_id x \<in> {Some (message_id example_task), Some (message_id example_result),
                      Some (message_id example_feedback)}
      \<longrightarrow> x = example_result \<or> x = example_feedback"
    by (simp add: h i p)
  have a7: "(3::nat) \<le> 3" by simp
  have n: "''4'' \<notin> message_id ` set (history example_bus)" by (simp add: h i)
  note c = conversation_thread_chain [OF a1 a2 k a3 a4 a5' a6 a7]
  have m: "''1'' \<in> {message_id example_task, message_id example_result, message_id example_feedback}"
    "''2'' \<in> {message_id example_task, message_id example_result, message_id example_feedback}"
    "''3'' \<in> {message_id example_task, message_id example_result, message_id example_feedback}"
    by (simp_all add: i)
  have tt: "timestamp example_task \<le> timestamp example_result
      \<and> timestamp example_result \<le> timestamp example_feedback"
    using t by (rule conjI)
  note d = c [THEN conjunct1, THEN bspec, THEN conjunct2, THEN mp, OF _ tt]
  have A: "get_conversation 3 example_bus ''1'' = Some (Inr [example_task, example_result, example_feedback])"
    "get_conversation 3 example_bus ''2'' = Some (Inr [example_task, example_result, example_feedback])"
    "get_conversation 3 example_bus ''3'' = Some (Inr [example_task, example_result, example_feedback])"
    by (rule d, rule m)+
  have c4: "get_conversation 3 example_bus ''4'' = Some (Inr [])"
    using c [THEN conjunct2, rule_format, OF n] .
  show ?thesis
    by (intro conjI a1 a2 k a3 a4 a5 a7 A c4)
qed

section \<open>Workflow state machine: auxiliary facts\<close>

lemma workflow_save_state [simp]: "workflow (save_state w) = workflow w"
  by (simp add: save_state_def Let_def)

lemma ticks_save_state [simp]: "ticks (save_state w) = ticks w"
  by (simp add: save_state_def Let_def)

lemma clock_save_state [simp]: "clock (save_state w) = clock w"
  by (simp add: save_state_def Let_def)

lemma active_phase_None [simp]: "current_phase bw = None \<Longrightarrow> active_phase bw = None"
  by (simp add: active_phase_def)

lemma active_phase_Some: "current_phase bw = Some cp \<Longrightarrow> cp \<noteq> [] \<Longrightarrow> active_phase bw = Some cp"
  by (simp add: active_phase_def)

lemma active_phase_SomeD: "active_phase bw = Some cp \<Longrightarrow> current_phase bw = Some cp \<and> cp \<noteq> []"
  by (cases "current_phase bw") (auto simp: active_phase_def split: if_splits)

lemma active_phase_cong [simp]:
  "active_phase (bw\<lparr>phases := ps\<rparr>) = active_phase bw"
  "active_phase (bw\<lparr>wf_status := st\<rparr>) = active_phase bw"
  "active_phase (bw\<lparr>wf_started_at := t\<rparr>) = active_phase bw"
  "active_phase (bw\<lparr>wf_completed_at := t\<rparr>) = active_phase bw"
  by (simp_all add: active_phase_def)

lemma complete_phase_idle:
  "active_phase (workflow w) = None \<Longrightarrow> complete_phase wp w = Inr w"
  by (simp add: complete_phase.simps)

lemma start_phase_unknown:
  "phases (workflow w) n = None \<Longrightarrow> start_phase wp w n = Inl (ValueError (''Unknown phase: '' @ n))"
  by (simp add: start_phase.simps)

lemma start_phase_idle:
  assumes "active_phase (workflow w) = None" "phases (workflow w) n = Some ph"
  shows "start_phase wp w n =
    Inr (save_state (w\<lparr>ticks := Suc (ticks w),
           workflow := (workflow w)\<lparr>current_phase := Some n,
              phases := (phases (workflow w))(n \<mapsto> Phase_start ph (clock w (ticks w)))\<rparr>\<rparr>))"
  using assms by (simp add: start_phase.simps time_time_def Let_def)

lemma phases_post_init:
  "phases (post_init wp bw) n = (if n \<in> set wp then Some (Phase_init n) else phases bw n)"
proof -
  have "fold (\<lambda>phase_name ps. ps(phase_name \<mapsto> Phase_init phase_name)) wp m n
        = (if n \<in> set wp then Some (Phase_init n) else m n)" for m
    by (induction wp arbitrary: m) auto
  then show ?thesis by (simp add: post_init_def)
qed

lemma phases_BookWorkflow_init:
  "phases (BookWorkflow_init wp bid) n = (if n \<in> set wp then Some (Phase_init n) else None)"
  by (simp add: BookWorkflow_init_def phases_post_init)

lemma fields_BookWorkflow_init [simp]:
  "wf_status (BookWorkflow_init wp bid) = W_PENDING"
  "current_phase (BookWorkflow_init wp bid) = None"
  "wf_started_at (BookWorkflow_init wp bid) = None"
  "wf_completed_at (BookWorkflow_init wp bid) = None"
  "book_id (BookWorkflow_init wp bid) = bid"
  "wf_metadata (BookWorkflow_init wp bid) = Map.empty"
  by (simp_all add: BookWorkflow_init_def post_init_def)

lemma pause_active:
  assumes "active_phase (workflow w) = Some cp" "phases (workflow w) cp = Some ph"
  shows "pause w = Inr (save_state (w\<lparr>workflow := (workflow w)
           \<lparr>wf_status := W_PAUSED, phases := (phases (workflow w))(cp \<mapsto> Phase_pause ph)\<rparr>\<rparr>))"
  using assms by (simp add: pause_def Let_def)

lemma resume_active:
  assumes "wf_status (workflow w) = W_PAUSED"
    "active_phase (workflow w) = Some cp" "phases (workflow w) cp = Some ph"
  shows "resume w = Inr (save_state (w\<lparr>workflow := (workflow w)
           \<lparr>wf_status := W_RUNNING, phases := (phases (workflow w))(cp \<mapsto> ph\<lparr>status := P_RUNNING\<rparr>)\<rparr>\<rparr>))"
  using assms by (simp add: resume_def Let_def)

lemmas eval_defs = example_clock_def example_world_def new_world_def example_phases_def start_def time_time_def
     start_phase.simps complete_phase.simps phases_BookWorkflow_init active_phase_def Let_def
     complete_def world_after_def fail_def pause_def resume_def

lemma fail_active:
  assumes "active_phase (workflow w) = Some cp" "phases (workflow w) cp = Some ph"
  shows "fail w err = Inr (save_state (w\<lparr>workflow := (workflow w)
           \<lparr>wf_status := W_FAILED, phases := (phases (workflow w))(cp \<mapsto> Phase_fail ph err)\<rparr>\<rparr>))"
  using assms by (simp add: fail_def Let_def)




lemma index_of_nth:
  "distinct xs \<Longrightarrow> i < length xs \<Longrightarrow> index_of xs (xs ! i) = Some i"
proof (induction xs arbitrary: i)
  case Nil
  then show ?case by simp
next
  case (Cons x xs)
  show ?case
  proof (cases i)
    case 0
    then show ?thesis by simp
  next
    case (Suc j)
    then have "j < length xs" "xs ! j \<in> set xs" using Cons.prems by auto
    then have "x \<noteq> xs ! j" using Cons.prems by auto
    then show ?thesis using Suc Cons \<open>j < length xs\<close> by simp
  qed
qed

lemma index_of_SomeD: "index_of xs x = Some i \<Longrightarrow> i < length xs \<and> xs ! i = x"
  by (induction xs arbitrary: i) (auto split: if_splits)

lemma index_of_None_iff: "index_of xs x = None \<longleftrightarrow> x \<notin> set xs"
  by (induction xs) auto

lemma run_append:
  "run wp w (xs @ ys) = (case run wp w xs of Inl e \<Rightarrow> Inl e | Inr w' \<Rightarrow> run wp w' ys)"
  by (induction xs arbitrary: w) (auto split: sum.splits)

lemma complete_phase_next:
  assumes a: "active_phase (workflow w) = Some cp"
    and ph: "phases (workflow w) cp = Some ph"
    and i: "index_of wp cp = Some i" "Suc i < length wp"
    and nx: "((phases (workflow w))(cp \<mapsto> Phase_complete ph (clock w (ticks w)))) (wp ! Suc i) = Some ph2"
  shows "\<exists>w'. complete_phase wp w = Inr w'
           \<and> workflow w' = (workflow w)\<lparr>current_phase := Some (wp ! Suc i),
                phases := (phases (workflow w))
                  (cp \<mapsto> Phase_complete ph (clock w (ticks w)),
                   wp ! Suc i \<mapsto> Phase_start ph2 (clock w (Suc (ticks w))))\<rparr>
           \<and> ticks w' = ticks w + 2 \<and> clock w' = clock w"
proof -
  let ?w2 = "w\<lparr>ticks := Suc (ticks w),
      workflow := (workflow w)\<lparr>phases := (phases (workflow w))(cp \<mapsto> Phase_complete ph (clock w (ticks w))),
                                current_phase := None\<rparr>\<rparr>"
  have s: "start_phase wp ?w2 (wp ! Suc i) =
     Inr (save_state (?w2\<lparr>ticks := Suc (ticks ?w2),
           workflow := (workflow ?w2)\<lparr>current_phase := Some (wp ! Suc i),
              phases := (phases (workflow ?w2))(wp ! Suc i \<mapsto> Phase_start ph2 (clock ?w2 (ticks ?w2)))\<rparr>\<rparr>))"
    using nx by (intro start_phase_idle) simp_all
  have "int i < int (length wp) - 1" using i by simp
  then show ?thesis
    using a ph i(1) s
    by (subst complete_phase.simps) (simp add: time_time_def Let_def)
qed

lemma complete_phase_last:
  assumes a: "active_phase (workflow w) = Some cp"
    and ph: "phases (workflow w) cp = Some ph"
    and i: "index_of wp cp = Some i" "\<not> Suc i < length wp"
  shows "\<exists>w'. complete_phase wp w = Inr w'
           \<and> workflow w' = (workflow w)\<lparr>wf_status := W_COMPLETED,
                wf_completed_at := Some (clock w (Suc (ticks w))), current_phase := None,
                phases := (phases (workflow w))(cp \<mapsto> Phase_complete ph (clock w (ticks w)))\<rparr>
           \<and> ticks w' = ticks w + 2 \<and> clock w' = clock w"
proof -
  have "\<not> int i < int (length wp) - 1" using i by simp
  then show ?thesis
    using a ph i(1)
    by (subst complete_phase.simps) (simp add: time_time_def Let_def complete_def)
qed

lemma start_idle:
  assumes a: "active_phase (workflow w) = None"
    and wp: "wp = first_phase # rest"
    and ph: "phases (workflow w) first_phase = Some ph"
  shows "\<exists>w'. start wp w = Inr w'
           \<and> workflow w' = (workflow w)\<lparr>wf_status := W_RUNNING,
                wf_started_at := Some (clock w (ticks w)), current_phase := Some first_phase,
                phases := (phases (workflow w))(first_phase \<mapsto> Phase_start ph (clock w (Suc (ticks w))))\<rparr>
           \<and> ticks w' = ticks w + 2 \<and> clock w' = clock w"
proof -
  let ?w3 = "w\<lparr>ticks := Suc (ticks w),
      workflow := (workflow w)\<lparr>wf_status := W_RUNNING, wf_started_at := Some (clock w (ticks w))\<rparr>\<rparr>"
  have s: "start_phase wp ?w3 first_phase =
     Inr (save_state (?w3\<lparr>ticks := Suc (ticks ?w3),
           workflow := (workflow ?w3)\<lparr>current_phase := Some first_phase,
              phases := (phases (workflow ?w3))(first_phase \<mapsto> Phase_start ph (clock ?w3 (ticks ?w3)))\<rparr>\<rparr>))"
    using a ph by (intro start_phase_idle) simp_all
  show ?thesis
    using s by (simp add: start_def wp time_time_def Let_def)
qed

lemma example_world_fresh:
  "workflow example_world
     = (BookWorkflow_init example_phases ''book_20240101_100000'')\<lparr>wf_metadata := Map.empty\<rparr>"
  by (simp add: example_world_def new_world_def BookWorkflow_init_def post_init_def)

lemma example_started:
  "wf_status (workflow (world_after [Start])) = W_RUNNING"
  "current_phase (workflow (world_after [Start])) = Some ''outline''"
  "phases (workflow (world_after [Start])) ''outline''
     = Some (Phase_start (Phase_init ''outline'') 1001)"
  by (simp_all add: eval_defs)

lemma example_in_draft:
  "current_phase (workflow (world_after [Start, Complete_phase])) = Some ''draft''"
  "phases (workflow (world_after [Start, Complete_phase])) ''draft''
     = Some (Phase_start (Phase_init ''draft'') 1003)"
  "phases (workflow (world_after [Start, Complete_phase])) ''outline''
     = Some (Phase_complete (Phase_start (Phase_init ''outline'') 1001) 1002)"
  "wf_started_at (workflow (world_after [Start, Complete_phase])) = Some 1000"
  "wf_completed_at (workflow (world_after [Start, Complete_phase])) = None"
  by (simp_all add: eval_defs)


lemma wf_status_save_state [simp]: "wf_status (workflow (save_state w)) = wf_status (workflow w)"
  by simp

lemma start_phase_idle_status:
  assumes "active_phase (workflow w) = None" "start_phase wp w n = Inr w'"
  shows "wf_status (workflow w') = wf_status (workflow w)"
proof (cases "phases (workflow w) n")
  case None
  then show ?thesis using assms by (simp add: start_phase_unknown)
next
  case (Some ph)
  then show ?thesis using assms by (auto simp: start_phase_idle)
qed

lemma complete_phase_status:
  assumes "complete_phase wp w = Inr w'"
  shows "wf_status (workflow w') = wf_status (workflow w) \<or> wf_status (workflow w') = W_COMPLETED"
proof (cases "active_phase (workflow w)")
  case None
  then show ?thesis using assms by (simp add: complete_phase_idle)
next
  case (Some cp)
  note a = this
  show ?thesis
  proof (cases "phases (workflow w) cp")
    case None
    then show ?thesis using assms a by (simp add: complete_phase.simps)
  next
    case (Some ph)
    note ph = this
    show ?thesis
    proof (cases "index_of wp cp")
      case None
      then show ?thesis using assms a ph
        by (simp add: complete_phase.simps time_time_def Let_def)
    next
      case (Some i)
      show ?thesis
      proof (cases "Suc i < length wp")
        case False
        then show ?thesis
          using complete_phase_last [OF a ph Some False] assms by auto
      next
        case True
        let ?ps = "(phases (workflow w))(cp \<mapsto> Phase_complete ph (clock w (ticks w)))"
        show ?thesis
        proof (cases "?ps (wp ! Suc i)")
          case None
          let ?w2 = "w\<lparr>ticks := Suc (ticks w),
             workflow := (workflow w)\<lparr>phases := ?ps, current_phase := None\<rparr>\<rparr>"
          have "start_phase wp ?w2 (wp ! Suc i) = Inl (ValueError (''Unknown phase: '' @ wp ! Suc i))"
            using None by (intro start_phase_unknown) simp
          moreover have "int i < int (length wp) - 1" using True by simp
          ultimately show ?thesis using assms a ph Some
            by (simp add: complete_phase.simps time_time_def Let_def)
        next
          case (Some ph2)
          then show ?thesis
            using complete_phase_next [OF a ph \<open>index_of wp cp = Some i\<close> True Some] assms by auto
        qed
      qed
    qed
  qed
qed

lemma start_phase_status:
  assumes "start_phase wp w n = Inr w'"
  shows "wf_status (workflow w') = wf_status (workflow w) \<or> wf_status (workflow w') = W_COMPLETED"
proof (cases "phases (workflow w) n")
  case None
  then show ?thesis using assms by (simp add: start_phase_unknown)
next
  case (Some ph)
  show ?thesis
  proof (cases "active_phase (workflow w)")
    case None
    then show ?thesis using start_phase_idle_status [OF None assms] by simp
  next
    case a: (Some cp)
    show ?thesis
    proof (cases "complete_phase wp w")
      case (Inl e)
      then show ?thesis using assms Some a by (simp add: start_phase.simps)
    next
      case (Inr w1)
      have "wf_status (workflow w') = wf_status (workflow w1)"
        using assms Some a Inr
        by (auto simp: start_phase.simps time_time_def Let_def split: option.splits)
      then show ?thesis using complete_phase_status [OF Inr] by auto
    qed
  qed
qed

lemma pause_status: "pause w = Inr w' \<Longrightarrow> wf_status (workflow w') = W_PAUSED"
  by (auto simp: pause_def Let_def split: option.splits)

lemma fail_status: "fail w err = Inr w' \<Longrightarrow> wf_status (workflow w') = W_FAILED"
  by (auto simp: fail_def Let_def split: option.splits)

lemma add_task_status: "add_task w i d = Inr w' \<Longrightarrow> wf_status (workflow w') = wf_status (workflow w)"
  by (auto simp: add_task_def split: option.splits)

lemma add_result_status: "add_result w i d = Inr w' \<Longrightarrow> wf_status (workflow w') = wf_status (workflow w)"
  by (auto simp: add_result_def split: option.splits)

lemma resume_not_paused: "wf_status (workflow w) \<noteq> W_PAUSED \<Longrightarrow> resume w = Inr w"
  by (simp add: resume_def)

lemma apply_op_terminal:
  assumes t: "wf_status (workflow w) = W_FAILED \<or> wf_status (workflow w) = W_COMPLETED"
    and x: "x \<noteq> Start" "x \<noteq> Pause"
    and r: "apply_op wp w x = Inr w'"
  shows "wf_status (workflow w') = W_FAILED \<or> wf_status (workflow w') = W_COMPLETED"
proof (cases x)
  case Start
  then show ?thesis using x by simp
next
  case Complete_phase
  then show ?thesis using complete_phase_status [of wp w w'] r t by auto
next
  case (Start_phase n)
  then show ?thesis using start_phase_status [of wp w n w'] r t by auto
next
  case Pause
  then show ?thesis using x by simp
next
  case Resume
  have "resume w = Inr w" using t by (intro resume_not_paused) auto
  then show ?thesis using Resume r t by simp
next
  case (Fail e)
  then show ?thesis using fail_status [of w e w'] r by simp
next
  case (Add_task i d)
  then show ?thesis using add_task_status [of w i d w'] r t by simp
next
  case (Add_result i d)
  then show ?thesis using add_result_status [of w i d w'] r t by simp
qed

lemma example_failed_run:
  "wf_status (workflow (world_after [Start, Fail ''backend timeout''])) = W_FAILED"
  "run example_phases (world_after [Start, Fail ''backend timeout''])
       [Resume, Complete_phase, Add_result ''t1'' (PStr ''late''), Fail ''again'']
     = Inr (world_after [Start, Fail ''backend timeout'', Resume, Complete_phase,
                         Add_result ''t1'' (PStr ''late''), Fail ''again''])"
  by (simp_all add: eval_defs add_result_def)

section \<open>Workflow state machine: the claims\<close>

text \<open>
  C1. For a configured sequence of \<open>N \<ge> 1\<close> distinct, non-empty phase names and a freshly
  constructed workflow (status Pending): \<^verbatim>\<open>start()\<close> followed by \<open>k \<le> N\<close> calls of
  \<^verbatim>\<open>complete_phase()\<close> returns, and afterwards the phases before position \<open>k\<close> are
  Completed, the phase at position \<open>k\<close> is Running and is the current phase, the later ones
  are Pending, and the workflow is Running; after exactly \<open>N\<close> calls the workflow is
  Completed, \<^verbatim>\<open>current_phase\<close> is \<^verbatim>\<open>None\<close> and every phase is Completed. The Completed
  phases are always an initial segment of the sequence.
\<close>

theorem start_then_complete_phases:
  assumes ne: "WORKFLOW_PHASES \<noteq> []"
    and dist: "distinct WORKFLOW_PHASES"
    and names: "[] \<notin> set WORKFLOW_PHASES"
    and fresh: "workflow w = (BookWorkflow_init WORKFLOW_PHASES bid)\<lparr>wf_metadata := md\<rparr>"
    and k: "k \<le> length WORKFLOW_PHASES"
  shows "wf_status (workflow w) = W_PENDING
       \<and> (\<exists>w'. run WORKFLOW_PHASES w (Start # replicate k Complete_phase) = Inr w'
            \<and> wf_status (workflow w') = (if k < length WORKFLOW_PHASES then W_RUNNING else W_COMPLETED)
            \<and> current_phase (workflow w')
                 = (if k < length WORKFLOW_PHASES then Some (WORKFLOW_PHASES ! k) else None)
            \<and> (\<forall>j < length WORKFLOW_PHASES.
                  map_option status (phases (workflow w') (WORKFLOW_PHASES ! j))
                    = Some (if j < k then P_COMPLETED else if j = k then P_RUNNING else P_PENDING)))"
proof
  show "wf_status (workflow w) = W_PENDING" using fresh by simp
next
  let ?wp = WORKFLOW_PHASES
  let ?N = "length ?wp"
  have nth_eq: "(?wp ! i = ?wp ! j) = (i = j)" if "i < ?N" "j < ?N" for i j
    using dist that by (simp add: nth_eq_iff_index_eq)
  show "\<exists>w'. run ?wp w (Start # replicate k Complete_phase) = Inr w'
            \<and> wf_status (workflow w') = (if k < ?N then W_RUNNING else W_COMPLETED)
            \<and> current_phase (workflow w') = (if k < ?N then Some (?wp ! k) else None)
            \<and> (\<forall>j < ?N. map_option status (phases (workflow w') (?wp ! j))
                    = Some (if j < k then P_COMPLETED else if j = k then P_RUNNING else P_PENDING))"
    using k
  proof (induction k)
    case 0
    obtain first_phase rest where wp: "?wp = first_phase # rest"
      using ne by (cases ?wp) auto
    have first: "first_phase = ?wp ! 0" using wp by simp
    have pos: "0 < ?N" using ne by simp
    have a: "active_phase (workflow w) = None" using fresh by simp
    have ph: "phases (workflow w) first_phase = Some (Phase_init first_phase)"
      using fresh wp by (simp add: phases_BookWorkflow_init)
    obtain w' where s: "start ?wp w = Inr w'"
      and w': "workflow w' = (workflow w)\<lparr>wf_status := W_RUNNING,
                wf_started_at := Some (clock w (ticks w)), current_phase := Some first_phase,
                phases := (phases (workflow w))(first_phase \<mapsto>
                   Phase_start (Phase_init first_phase) (clock w (Suc (ticks w))))\<rparr>"
      using start_idle [OF a wp ph] by blast
    have st: "map_option status (phases (workflow w') (?wp ! j))
                = Some (if j = 0 then P_RUNNING else P_PENDING)" if "j < ?N" for j
    proof (cases "j = 0")
      case True
      then show ?thesis using w' first by (simp add: Phase_start_def)
    next
      case False
      then have "?wp ! j \<noteq> first_phase" using nth_eq [OF that pos] first by simp
      then show ?thesis
        using w' fresh that False by (simp add: phases_BookWorkflow_init Phase_init_def)
    qed
    show ?case
      using s w' st pos first by simp
  next
    case (Suc k)
    then have kN: "k < ?N" by simp
    then obtain wk where r: "run ?wp w (Start # replicate k Complete_phase) = Inr wk"
      and cur: "current_phase (workflow wk) = Some (?wp ! k)"
      and run: "wf_status (workflow wk) = W_RUNNING"
      and st: "\<forall>j < ?N. map_option status (phases (workflow wk) (?wp ! j))
                    = Some (if j < k then P_COMPLETED else if j = k then P_RUNNING else P_PENDING)"
      using Suc.IH by auto
    have split: "run ?wp w (Start # replicate (Suc k) Complete_phase) = complete_phase ?wp wk"
    proof -
      have e: "Start # replicate (Suc k) Complete_phase
                 = (Start # replicate k Complete_phase) @ [Complete_phase]"
        by (simp add: replicate_append_same)
      have "run ?wp w ((Start # replicate k Complete_phase) @ [Complete_phase])
              = run ?wp wk [Complete_phase]"
        by (simp only: run_append r sum.case)
      also have "\<dots> = complete_phase ?wp wk"
        by (simp split: sum.splits)
      finally show ?thesis unfolding e .
    qed
    have "?wp ! k \<in> set ?wp" using kN by simp
    then have "?wp ! k \<noteq> []" using names by metis
    then have a: "active_phase (workflow wk) = Some (?wp ! k)"
      using cur by (simp add: active_phase_Some)
    obtain ph where ph: "phases (workflow wk) (?wp ! k) = Some ph"
      using st kN by (metis (no_types) map_option_eq_Some)
    have i: "index_of ?wp (?wp ! k) = Some k" using dist kN by (rule index_of_nth)
    show ?case
    proof (cases "Suc k < ?N")
      case True
      have neq: "?wp ! Suc k \<noteq> ?wp ! k" using nth_eq [OF True kN] by simp
      obtain ph2 where ph2: "phases (workflow wk) (?wp ! Suc k) = Some ph2"
        using st True by (metis (no_types) map_option_eq_Some)
      have nx: "((phases (workflow wk))(?wp ! k \<mapsto> Phase_complete ph (clock wk (ticks wk)))) (?wp ! Suc k) = Some ph2"
        using neq ph2 by simp
      obtain w' where c: "complete_phase ?wp wk = Inr w'"
        and w': "workflow w' = (workflow wk)\<lparr>current_phase := Some (?wp ! Suc k),
                phases := (phases (workflow wk))
                  (?wp ! k \<mapsto> Phase_complete ph (clock wk (ticks wk)),
                   ?wp ! Suc k \<mapsto> Phase_start ph2 (clock wk (Suc (ticks wk))))\<rparr>"
        using complete_phase_next [OF a ph i True nx] by blast
      have st': "map_option status (phases (workflow w') (?wp ! j))
                = Some (if j < Suc k then P_COMPLETED else if j = Suc k then P_RUNNING else P_PENDING)"
        if j: "j < ?N" for j
      proof -
        consider "j = k" | "j = Suc k" | "j \<noteq> k" "j \<noteq> Suc k" by blast
        then show ?thesis
        proof cases
          case 1
          then show ?thesis using w' neq by (simp add: Phase_complete_def)
        next
          case 2
          then show ?thesis using w' by (simp add: Phase_start_def)
        next
          case 3
          then have "?wp ! j \<noteq> ?wp ! k" "?wp ! j \<noteq> ?wp ! Suc k"
            using nth_eq [OF j kN] nth_eq [OF j True] by simp_all
          then have "phases (workflow w') (?wp ! j) = phases (workflow wk) (?wp ! j)"
            using w' by simp
          then show ?thesis using st [rule_format, OF j] 3 by (auto simp: less_Suc_eq)
        qed
      qed
      show ?thesis
        using split c w' st' run True by simp
    next
      case False
      then have last: "Suc k = ?N" using kN by simp
      obtain w' where c: "complete_phase ?wp wk = Inr w'"
        and w': "workflow w' = (workflow wk)\<lparr>wf_status := W_COMPLETED,
                wf_completed_at := Some (clock wk (Suc (ticks wk))), current_phase := None,
                phases := (phases (workflow wk))(?wp ! k \<mapsto> Phase_complete ph (clock wk (ticks wk)))\<rparr>"
        using complete_phase_last [OF a ph i False] by blast
      have st': "map_option status (phases (workflow w') (?wp ! j)) = Some P_COMPLETED"
        if j: "j < ?N" for j
      proof (cases "j = k")
        case True
        then show ?thesis using w' by (simp add: Phase_complete_def)
      next
        case False
        then have "?wp ! j \<noteq> ?wp ! k" using nth_eq [OF j kN] by simp
        then have "phases (workflow w') (?wp ! j) = phases (workflow wk) (?wp ! j)"
          using w' by simp
        moreover have "j < k" using False j last by simp
        ultimately show ?thesis using st [rule_format, OF j] by simp
      qed
      show ?thesis
        using split c w' st' last by simp
    qed
  qed
qed

theorem start_then_complete_phases_witness:
  "example_phases \<noteq> [] \<and> distinct example_phases \<and> [] \<notin> set example_phases
   \<and> (3::nat) \<le> length example_phases
   \<and> wf_status (workflow example_world) = W_PENDING
   \<and> (\<exists>w'. run example_phases example_world [Start, Complete_phase, Complete_phase, Complete_phase] = Inr w'
         \<and> wf_status (workflow w') = W_COMPLETED
         \<and> current_phase (workflow w') = None
         \<and> map_option status (phases (workflow w') ''outline'') = Some P_COMPLETED
         \<and> map_option status (phases (workflow w') ''draft'') = Some P_COMPLETED
         \<and> map_option status (phases (workflow w') ''polish'') = Some P_COMPLETED)"
proof -
  have h: "example_phases \<noteq> []" "distinct example_phases" "[] \<notin> set example_phases"
    "(3::nat) \<le> length example_phases"
    by (simp_all add: example_phases_def)
  have r: "Start # replicate 3 Complete_phase = [Start, Complete_phase, Complete_phase, Complete_phase]"
    by (simp add: numeral_3_eq_3)
  note t = start_then_complete_phases [OF h(1-3) example_world_fresh h(4), unfolded r]
  have p: "wf_status (workflow example_world) = W_PENDING" using t by (rule conjunct1)
  obtain w' where w: "run example_phases example_world [Start, Complete_phase, Complete_phase, Complete_phase] = Inr w'"
    "wf_status (workflow w') = (if 3 < length example_phases then W_RUNNING else W_COMPLETED)"
    "current_phase (workflow w') = (if 3 < length example_phases then Some (example_phases ! 3) else None)"
    and st: "\<forall>j < length example_phases.
                  map_option status (phases (workflow w') (example_phases ! j))
                    = Some (if j < 3 then P_COMPLETED else if j = 3 then P_RUNNING else P_PENDING)"
    using t [THEN conjunct2] by blast
  have "map_option status (phases (workflow w') ''outline'') = Some P_COMPLETED"
    using st [rule_format, of 0] by (simp add: example_phases_def)
  moreover have "map_option status (phases (workflow w') ''draft'') = Some P_COMPLETED"
    using st [rule_format, of 1] by (simp add: example_phases_def)
  moreover have "map_option status (phases (workflow w') ''polish'') = Some P_COMPLETED"
    using st [rule_format, of 2] by (simp add: example_phases_def)
  moreover have "wf_status (workflow w') = W_COMPLETED" "current_phase (workflow w') = None"
    using w(2,3) by (simp_all add: example_phases_def)
  ultimately show ?thesis using h p w(1) by blast
qed

text \<open>
  C2. On the three-phase example, \<^verbatim>\<open>start()\<close> followed by \<^verbatim>\<open>start_phase("polish")\<close> leaves
  both \<open>draft\<close> and \<open>polish\<close> Running with \<open>polish\<close> as the current phase:
  \<^verbatim>\<open>start_phase\<close> completes the active phase through \<^verbatim>\<open>complete_phase\<close>, which also starts
  the next phase of the sequence. In the same way a second \<^verbatim>\<open>start()\<close> leaves \<open>outline\<close>
  and \<open>draft\<close> Running.
\<close>

theorem start_phase_leaves_two_running:
  "\<not> isl (run example_phases example_world [Start, Start_phase ''polish''])
   \<and> current_phase (workflow (world_after [Start, Start_phase ''polish''])) = Some ''polish''
   \<and> map_option status (phases (workflow (world_after [Start, Start_phase ''polish''])) ''outline'')
        = Some P_COMPLETED
   \<and> map_option status (phases (workflow (world_after [Start, Start_phase ''polish''])) ''draft'')
        = Some P_RUNNING
   \<and> map_option status (phases (workflow (world_after [Start, Start_phase ''polish''])) ''polish'')
        = Some P_RUNNING
   \<and> \<not> isl (run example_phases example_world [Start, Start])
   \<and> current_phase (workflow (world_after [Start, Start])) = Some ''outline''
   \<and> map_option status (phases (workflow (world_after [Start, Start])) ''outline'') = Some P_RUNNING
   \<and> map_option status (phases (workflow (world_after [Start, Start])) ''draft'') = Some P_RUNNING"
  by (simp add: eval_defs Phase_start_def Phase_complete_def Phase_init_def)

text \<open>
  C3, as stated, fails: \<^verbatim>\<open>pause()\<close> on a Failed workflow returns and sets the status to
  Paused.
\<close>

theorem terminal_status_counterexample:
  "\<not> isl (run example_phases example_world [Start, Fail ''backend timeout'', Pause])
   \<and> wf_status (workflow (world_after [Start, Fail ''backend timeout''])) = W_FAILED
   \<and> wf_status (workflow (world_after [Start, Fail ''backend timeout'', Pause])) = W_PAUSED"
  by (simp add: eval_defs)

text \<open>
  C3, amended. From status Failed or Completed, every run of calls other than \<^verbatim>\<open>start\<close>
  and \<^verbatim>\<open>pause\<close> that returns ends in status Failed or Completed; \<^verbatim>\<open>resume\<close> changes
  nothing and \<^verbatim>\<open>fail\<close> gives Failed. \<^verbatim>\<open>pause\<close> has no guard and gives Paused, and
  \<^verbatim>\<open>start\<close> with no active phase gives Running.
\<close>

theorem terminal_status_kept:
  assumes t: "wf_status (workflow w) = W_FAILED \<or> wf_status (workflow w) = W_COMPLETED"
    and ops: "Start \<notin> set ops" "Pause \<notin> set ops"
    and r: "run WORKFLOW_PHASES w ops = Inr w'"
  shows "(wf_status (workflow w') = W_FAILED \<or> wf_status (workflow w') = W_COMPLETED)
       \<and> resume w = Inr w
       \<and> (\<forall>err w1. fail w err = Inr w1 \<longrightarrow> wf_status (workflow w1) = W_FAILED)
       \<and> (\<forall>w1. pause w = Inr w1 \<longrightarrow> wf_status (workflow w1) = W_PAUSED)
       \<and> (\<forall>w1. active_phase (workflow w) = None \<longrightarrow> start WORKFLOW_PHASES w = Inr w1
              \<longrightarrow> wf_status (workflow w1) = W_RUNNING)"
proof (intro conjI allI impI)
  show "wf_status (workflow w') = W_FAILED \<or> wf_status (workflow w') = W_COMPLETED"
    using t ops r
  proof (induction ops arbitrary: w)
    case Nil
    then show ?case by simp
  next
    case (Cons x xs)
    from Cons.prems(4) obtain w1 where a: "apply_op WORKFLOW_PHASES w x = Inr w1"
      and b: "run WORKFLOW_PHASES w1 xs = Inr w'"
      by (cases "apply_op WORKFLOW_PHASES w x") auto
    have "x \<noteq> Start" "x \<noteq> Pause" using Cons.prems(2,3) by auto
    then have "wf_status (workflow w1) = W_FAILED \<or> wf_status (workflow w1) = W_COMPLETED"
      using apply_op_terminal [OF Cons.prems(1) _ _ a] by simp
    moreover have "Start \<notin> set xs" "Pause \<notin> set xs" using Cons.prems(2,3) by auto
    ultimately show ?case using Cons.IH b by simp
  qed
  show "resume w = Inr w" using t by (intro resume_not_paused) auto
  show "wf_status (workflow w1) = W_FAILED" if "fail w err = Inr w1" for err w1
    using that by (rule fail_status)
  show "wf_status (workflow w1) = W_PAUSED" if "pause w = Inr w1" for w1
    using that by (rule pause_status)
  show "wf_status (workflow w1) = W_RUNNING"
    if idle: "active_phase (workflow w) = None" and st: "start WORKFLOW_PHASES w = Inr w1" for w1
  proof -
    let ?w3 = "w\<lparr>ticks := Suc (ticks w),
      workflow := (workflow w)\<lparr>wf_status := W_RUNNING, wf_started_at := Some (clock w (ticks w))\<rparr>\<rparr>"
    obtain f rest where wp: "WORKFLOW_PHASES = f # rest"
      using st by (cases WORKFLOW_PHASES) (auto simp: start_def time_time_def Let_def)
    have "start_phase WORKFLOW_PHASES ?w3 f = Inr w1"
      using st by (simp add: start_def wp time_time_def Let_def)
    moreover have "active_phase (workflow ?w3) = None" using idle by simp
    ultimately have "wf_status (workflow w1) = wf_status (workflow ?w3)"
      using start_phase_idle_status by blast
    then show ?thesis by simp
  qed
qed

theorem terminal_status_kept_witness:
  "wf_status (workflow (world_after [Start, Fail ''backend timeout''])) = W_FAILED
   \<and> Start \<notin> set [Resume, Complete_phase, Add_result ''t1'' (PStr ''late''), Fail ''again'']
   \<and> Pause \<notin> set [Resume, Complete_phase, Add_result ''t1'' (PStr ''late''), Fail ''again'']
   \<and> run example_phases (world_after [Start, Fail ''backend timeout''])
         [Resume, Complete_phase, Add_result ''t1'' (PStr ''late''), Fail ''again'']
       = Inr (world_after [Start, Fail ''backend timeout'', Resume, Complete_phase,
                           Add_result ''t1'' (PStr ''late''), Fail ''again''])
   \<and> (wf_status (workflow (world_after [Start, Fail ''backend timeout'', Resume, Complete_phase,
                           Add_result ''t1'' (PStr ''late''), Fail ''again''])) = W_FAILED
        \<or> wf_status (workflow (world_after [Start, Fail ''backend timeout'', Resume, Complete_phase,
                           Add_result ''t1'' (PStr ''late''), Fail ''again''])) = W_COMPLETED)
   \<and> resume (world_after [Start, Fail ''backend timeout''])
       = Inr (world_after [Start, Fail ''backend timeout''])"
proof -
  have t: "wf_status (workflow (world_after [Start, Fail ''backend timeout''])) = W_FAILED
      \<or> wf_status (workflow (world_after [Start, Fail ''backend timeout''])) = W_COMPLETED"
    using example_failed_run(1) by (rule disjI1)
  have o: "Start \<notin> set [Resume, Complete_phase, Add_result ''t1'' (PStr ''late''), Fail ''again'']"
    "Pause \<notin> set [Resume, Complete_phase, Add_result ''t1'' (PStr ''late''), Fail ''again'']"
    by simp_all
  note k = terminal_status_kept [OF t o example_failed_run(2)]
  show ?thesis
    by (intro conjI example_failed_run o k [THEN conjunct1] k [THEN conjunct2, THEN conjunct1])
qed

text \<open>
  C4. On a running workflow with an active phase that is registered in \<^verbatim>\<open>phases\<close>,
  \<^verbatim>\<open>pause\<close> followed by \<^verbatim>\<open>resume\<close> returns to status Running with the same current phase;
  the workflow differs from the one before at most in the status of the active phase, which
  is Running again, so no tasks, results, errors or timestamps change (and nothing at all
  when the active phase was Running). The clock is not read. \<^verbatim>\<open>resume\<close> on a workflow
  that is not Paused changes nothing.
\<close>

theorem pause_resume_restores:
  assumes running: "wf_status (workflow w) = W_RUNNING"
    and cur: "current_phase (workflow w) = Some cp" "cp \<noteq> []"
    and ph: "phases (workflow w) cp = Some ph"
  shows "(\<exists>w1 w2. pause w = Inr w1 \<and> resume w1 = Inr w2
           \<and> wf_status (workflow w2) = W_RUNNING
           \<and> current_phase (workflow w2) = Some cp
           \<and> workflow w2 = (workflow w)\<lparr>phases := (phases (workflow w))(cp \<mapsto> ph\<lparr>status := P_RUNNING\<rparr>)\<rparr>
           \<and> (status ph = P_RUNNING \<longrightarrow> workflow w2 = workflow w)
           \<and> ticks w2 = ticks w)
       \<and> (wf_status (workflow w') \<noteq> W_PAUSED \<longrightarrow> resume w' = Inr w')"
proof (intro conjI impI)
  have a: "active_phase (workflow w) = Some cp"
    using cur by (rule active_phase_Some)
  let ?w1 = "save_state (w\<lparr>workflow := (workflow w)
           \<lparr>wf_status := W_PAUSED, phases := (phases (workflow w))(cp \<mapsto> Phase_pause ph)\<rparr>\<rparr>)"
  have p: "pause w = Inr ?w1" using a ph by (rule pause_active)
  have a1: "active_phase (workflow ?w1) = Some cp" using a by simp
  have s1: "wf_status (workflow ?w1) = W_PAUSED" by simp
  have ph1: "phases (workflow ?w1) cp = Some (Phase_pause ph)" by simp
  note r = resume_active [OF s1 a1 ph1]
  let ?w2 = "save_state (?w1\<lparr>workflow := (workflow ?w1)
           \<lparr>wf_status := W_RUNNING,
             phases := (phases (workflow ?w1))(cp \<mapsto> (Phase_pause ph)\<lparr>status := P_RUNNING\<rparr>)\<rparr>\<rparr>)"
  have w2: "workflow ?w2 = (workflow w)\<lparr>phases := (phases (workflow w))(cp \<mapsto> ph\<lparr>status := P_RUNNING\<rparr>)\<rparr>"
    using running by (simp add: Phase_pause_def)
  have same: "workflow ?w2 = workflow w" if "status ph = P_RUNNING"
  proof -
    have "ph\<lparr>status := P_RUNNING\<rparr> = ph" using that by simp
    then have "(phases (workflow w))(cp \<mapsto> ph\<lparr>status := P_RUNNING\<rparr>) = phases (workflow w)"
      using ph by (simp add: fun_upd_idem)
    then show ?thesis using w2 by simp
  qed
  show "\<exists>w1 w2. pause w = Inr w1 \<and> resume w1 = Inr w2
           \<and> wf_status (workflow w2) = W_RUNNING
           \<and> current_phase (workflow w2) = Some cp
           \<and> workflow w2 = (workflow w)\<lparr>phases := (phases (workflow w))(cp \<mapsto> ph\<lparr>status := P_RUNNING\<rparr>)\<rparr>
           \<and> (status ph = P_RUNNING \<longrightarrow> workflow w2 = workflow w)
           \<and> ticks w2 = ticks w"
  proof (intro exI conjI impI)
    show "pause w = Inr ?w1" by (rule p)
    show "resume ?w1 = Inr ?w2" by (rule r)
    show "wf_status (workflow ?w2) = W_RUNNING" by simp
    show "current_phase (workflow ?w2) = Some cp" using cur by simp
    show "workflow ?w2 = (workflow w)\<lparr>phases := (phases (workflow w))(cp \<mapsto> ph\<lparr>status := P_RUNNING\<rparr>)\<rparr>"
      by (rule w2)
    show "workflow ?w2 = workflow w" if "status ph = P_RUNNING" using that by (rule same)
    show "ticks ?w2 = ticks w" by simp
  qed
next
  assume "wf_status (workflow w') \<noteq> W_PAUSED"
  then show "resume w' = Inr w'" by (simp add: resume_def)
qed

theorem pause_resume_restores_witness:
  "wf_status (workflow (world_after [Start])) = W_RUNNING
   \<and> current_phase (workflow (world_after [Start])) = Some ''outline''
   \<and> ''outline'' \<noteq> []
   \<and> phases (workflow (world_after [Start])) ''outline'' = Some (Phase_start (Phase_init ''outline'') 1001)
   \<and> (\<exists>w1 w2. pause (world_after [Start]) = Inr w1 \<and> resume w1 = Inr w2
         \<and> wf_status (workflow w2) = W_RUNNING
         \<and> current_phase (workflow w2) = Some ''outline''
         \<and> workflow w2 = workflow (world_after [Start]))
   \<and> wf_status (workflow example_world) \<noteq> W_PAUSED
   \<and> resume example_world = Inr example_world"
proof -
  have n: "''outline'' \<noteq> []" by simp
  have s: "status (Phase_start (Phase_init ''outline'') 1001) = P_RUNNING"
    by (simp add: Phase_start_def)
  have q: "wf_status (workflow example_world) \<noteq> W_PAUSED"
    by (simp add: example_world_def new_world_def)
  note t = pause_resume_restores [OF example_started(1,2) n example_started(3), of example_world]
  have "resume example_world = Inr example_world"
    using t [THEN conjunct2] q by simp
  moreover have "\<exists>w1 w2. pause (world_after [Start]) = Inr w1 \<and> resume w1 = Inr w2
         \<and> wf_status (workflow w2) = W_RUNNING
         \<and> current_phase (workflow w2) = Some ''outline''
         \<and> workflow w2 = workflow (world_after [Start])"
    using t [THEN conjunct1] s by blast
  ultimately show ?thesis using example_started n q by blast
qed

text \<open>
  C5. With no current phase (\<^verbatim>\<open>current_phase\<close> is \<^verbatim>\<open>None\<close>), \<^verbatim>\<open>complete_phase\<close>,
  \<^verbatim>\<open>add_task\<close> and \<^verbatim>\<open>add_result\<close> return without raising and change nothing: not the
  workflow (status, current phase, timestamps, phases), not the clock, not the saved files.
\<close>

theorem no_active_phase_noop:
  assumes "current_phase (workflow w) = None"
  shows "complete_phase WORKFLOW_PHASES w = Inr w
       \<and> add_task w task_id task_data = Inr w
       \<and> add_result w task_id result_data = Inr w"
  using assms by (simp add: complete_phase.simps add_task_def add_result_def)

theorem no_active_phase_noop_witness:
  "current_phase (workflow example_world) = None
   \<and> complete_phase example_phases example_world = Inr example_world
   \<and> add_task example_world ''t1'' (PStr ''write outline'') = Inr example_world
   \<and> add_result example_world ''t1'' (PStr ''done'') = Inr example_world"
proof -
  have c: "current_phase (workflow example_world) = None"
    by (simp add: example_world_def new_world_def)
  show ?thesis
    using no_active_phase_noop [OF c, of example_phases "''t1''" "PStr ''write outline''" "PStr ''done''"] c
    by simp
qed

text \<open>
  C9, as stated, fails: \<^verbatim>\<open>Phase.fail\<close> appends to the error list. After a failure
  \<open>x\<close> in \<open>draft\<close>, followed by \<^verbatim>\<open>pause\<close> and \<^verbatim>\<open>resume\<close>, the workflow is Running in
  \<open>draft\<close> with \<open>outline\<close> Completed, and \<^verbatim>\<open>fail("backend timeout")\<close> leaves the errors
  \<open>["x", "backend timeout"]\<close>.
\<close>

theorem fail_in_draft_counterexample:
  "\<not> isl (run example_phases example_world
            [Start, Complete_phase, Fail ''x'', Pause, Resume, Fail ''backend timeout''])
   \<and> wf_status (workflow (world_after [Start, Complete_phase, Fail ''x'', Pause, Resume])) = W_RUNNING
   \<and> current_phase (workflow (world_after [Start, Complete_phase, Fail ''x'', Pause, Resume]))
        = Some ''draft''
   \<and> map_option status
        (phases (workflow (world_after [Start, Complete_phase, Fail ''x'', Pause, Resume])) ''outline'')
        = Some P_COMPLETED
   \<and> map_option errors
        (phases (workflow (world_after
           [Start, Complete_phase, Fail ''x'', Pause, Resume, Fail ''backend timeout''])) ''draft'')
        = Some [''x'', ''backend timeout'']
   \<and> [''x'', ''backend timeout''] \<noteq> [''backend timeout'']"
  by (simp add: eval_defs Phase_start_def Phase_complete_def Phase_init_def Phase_fail_def Phase_pause_def)

text \<open>
  C9, amended. When the current phase is \<open>draft\<close> (and \<open>outline\<close> is Completed),
  \<^verbatim>\<open>fail("backend timeout")\<close> sets the workflow status to Failed, sets the status of
  \<open>draft\<close> to Failed and appends the reason to its errors, which are exactly
  \<open>["backend timeout"]\<close> when the phase had no error before; the other fields of \<open>draft\<close>
  and every other phase, \<open>outline\<close> among them, are unchanged.
\<close>

theorem fail_in_draft:
  assumes cur: "current_phase (workflow w) = Some ''draft''"
    and draft: "phases (workflow w) ''draft'' = Some d"
    and outline: "phases (workflow w) ''outline'' = Some ol" "status ol = P_COMPLETED"
  shows "\<exists>w'. fail w ''backend timeout'' = Inr w'
           \<and> wf_status (workflow w') = W_FAILED
           \<and> phases (workflow w') ''draft''
                = Some (d\<lparr>status := P_FAILED, errors := errors d @ [''backend timeout'']\<rparr>)
           \<and> (errors d = [] \<longrightarrow>
                 phases (workflow w') ''draft''
                   = Some (d\<lparr>status := P_FAILED, errors := [''backend timeout'']\<rparr>))
           \<and> phases (workflow w') ''outline'' = Some ol
           \<and> (\<forall>p. p \<noteq> ''draft'' \<longrightarrow> phases (workflow w') p = phases (workflow w) p)"
proof -
  have a: "active_phase (workflow w) = Some ''draft''"
    using cur by (simp add: active_phase_def)
  show ?thesis
    using outline by (simp add: fail_active [OF a draft] Phase_fail_def)
qed

theorem fail_in_draft_witness:
  "current_phase (workflow (world_after [Start, Complete_phase])) = Some ''draft''
   \<and> phases (workflow (world_after [Start, Complete_phase])) ''draft''
        = Some (Phase_start (Phase_init ''draft'') 1003)
   \<and> phases (workflow (world_after [Start, Complete_phase])) ''outline''
        = Some (Phase_complete (Phase_start (Phase_init ''outline'') 1001) 1002)
   \<and> status (Phase_complete (Phase_start (Phase_init ''outline'') 1001) 1002) = P_COMPLETED
   \<and> errors (Phase_start (Phase_init ''draft'') 1003) = []
   \<and> (\<exists>w'. fail (world_after [Start, Complete_phase]) ''backend timeout'' = Inr w'
         \<and> wf_status (workflow w') = W_FAILED
         \<and> phases (workflow w') ''draft''
              = Some ((Phase_start (Phase_init ''draft'') 1003)
                       \<lparr>status := P_FAILED, errors := [''backend timeout'']\<rparr>)
         \<and> phases (workflow w') ''outline''
              = Some (Phase_complete (Phase_start (Phase_init ''outline'') 1001) 1002)
         \<and> phases (workflow w') ''polish''
              = phases (workflow (world_after [Start, Complete_phase])) ''polish'')"
proof -
  have c: "status (Phase_complete (Phase_start (Phase_init ''outline'') 1001) 1002) = P_COMPLETED"
    by (simp add: Phase_complete_def)
  have e: "errors (Phase_start (Phase_init ''draft'') 1003) = []"
    by (simp add: Phase_start_def Phase_init_def)
  have n: "''polish'' \<noteq> ''draft''" by simp
  from fail_in_draft [OF example_in_draft(1,2,3) c]
  obtain w' where A: "fail (world_after [Start, Complete_phase]) ''backend timeout'' = Inr w'
           \<and> wf_status (workflow w') = W_FAILED
           \<and> phases (workflow w') ''draft''
                = Some ((Phase_start (Phase_init ''draft'') 1003)
                    \<lparr>status := P_FAILED,
                       errors := errors (Phase_start (Phase_init ''draft'') 1003) @ [''backend timeout'']\<rparr>)
           \<and> (errors (Phase_start (Phase_init ''draft'') 1003) = [] \<longrightarrow>
                 phases (workflow w') ''draft''
                   = Some ((Phase_start (Phase_init ''draft'') 1003)
                        \<lparr>status := P_FAILED, errors := [''backend timeout'']\<rparr>))
           \<and> phases (workflow w') ''outline''
                = Some (Phase_complete (Phase_start (Phase_init ''outline'') 1001) 1002)
           \<and> (\<forall>p. p \<noteq> ''draft'' \<longrightarrow>
                 phases (workflow w') p = phases (workflow (world_after [Start, Complete_phase])) p)" ..
  have 1: "fail (world_after [Start, Complete_phase]) ''backend timeout'' = Inr w'"
    and 2: "wf_status (workflow w') = W_FAILED"
    and 3: "phases (workflow w') ''draft''
              = Some ((Phase_start (Phase_init ''draft'') 1003)
                       \<lparr>status := P_FAILED, errors := [''backend timeout'']\<rparr>)"
    and 4: "phases (workflow w') ''outline''
              = Some (Phase_complete (Phase_start (Phase_init ''outline'') 1001) 1002)"
    and 5: "phases (workflow w') ''polish''
              = phases (workflow (world_after [Start, Complete_phase])) ''polish''"
    using A e n by simp_all
  have "\<exists>w'. fail (world_after [Start, Complete_phase]) ''backend timeout'' = Inr w'
         \<and> wf_status (workflow w') = W_FAILED
         \<and> phases (workflow w') ''draft''
              = Some ((Phase_start (Phase_init ''draft'') 1003)
                       \<lparr>status := P_FAILED, errors := [''backend timeout'']\<rparr>)
         \<and> phases (workflow w') ''outline''
              = Some (Phase_complete (Phase_start (Phase_init ''outline'') 1001) 1002)
         \<and> phases (workflow w') ''polish''
              = phases (workflow (world_after [Start, Complete_phase])) ''polish''"
    by (intro exI [of _ w'] conjI 1 2 3 4 5)
  then show ?thesis
    by (intro conjI example_in_draft(1,2,3) c e)
qed



section \<open>Component storage\<close>

lemma split_path_not_Nil [simp]: "split_path s \<noteq> []"
  by (induction s) (auto split: list.splits)

lemma split_path_plain: "CHR ''/'' \<notin> set f \<Longrightarrow> split_path f = [f]"
  by (induction f) auto

lemma split_path_append_sep:
  "split_path (a @ CHR ''/'' # b) = split_path a @ split_path b"
proof (induction a)
  case Nil
  show ?case by simp
next
  case (Cons c a)
  then show ?case by (cases "split_path a") auto
qed

lemma walk_append:
  "walk fs cur (xs @ ys) = (case walk fs cur xs of Inl e \<Rightarrow> Inl e | Inr d \<Rightarrow> walk fs d ys)"
  by (induction xs arbitrary: cur) auto

lemma is_dir_mono: "is_dir fs loc \<Longrightarrow> dirs fs \<subseteq> dirs fs' \<Longrightarrow> is_dir fs' loc"
  by (auto simp: is_dir_def)

lemma walk_mono:
  "walk fs cur cs = Inr d \<Longrightarrow> dirs fs \<subseteq> dirs fs' \<Longrightarrow> walk fs' cur cs = Inr d"
proof (induction cs arbitrary: cur)
  case Nil
  then show ?case by simp
next
  case (Cons c cs)
  show ?case
  proof (cases "c = [] \<or> c = ''.'' \<or> c = ''..''")
    case True
    then show ?thesis using Cons by auto
  next
    case False
    then have d: "is_dir fs (cur @ [c])" and w: "walk fs (cur @ [c]) cs = Inr d"
      using Cons.prems(1) by (auto split: if_splits)
    have "is_dir fs' (cur @ [c])" using d Cons.prems(2) by (rule is_dir_mono)
    then show ?thesis using False Cons.IH [OF w Cons.prems(2)] by simp
  qed
qed

lemma makedirs_from_existing:
  "walk fs cur cs = Inr d \<Longrightarrow> makedirs_from fs cur cs = Inr fs"
  by (induction cs arbitrary: cur) (auto split: if_splits)

lemma makedirs_from_result:
  "makedirs_from fs cur cs = Inr fs' \<Longrightarrow>
     files fs' = files fs \<and> dirs fs \<subseteq> dirs fs' \<and> (\<exists>d. walk fs' cur cs = Inr d)"
proof (induction cs arbitrary: fs cur)
  case Nil
  then show ?case by simp
next
  case (Cons c cs)
  show ?case
  proof (cases "c = [] \<or> c = ''.'' \<or> c = ''..''")
    case True
    show ?thesis
    proof (cases "c = ''..''")
      case dd: True
      then have m: "makedirs_from fs (parent cur) cs = Inr fs'" using Cons.prems by simp
      show ?thesis using Cons.IH [OF m] dd by simp
    next
      case dd: False
      then have m: "makedirs_from fs cur cs = Inr fs'" using Cons.prems True by auto
      show ?thesis using Cons.IH [OF m] dd True by auto
    qed
  next
    case False
    show ?thesis
    proof (cases "is_dir fs (cur @ [c])")
      case True
      then have m: "makedirs_from fs (cur @ [c]) cs = Inr fs'"
        using Cons.prems False by simp
      note r = Cons.IH [OF m]
      have "is_dir fs' (cur @ [c])" using True r by (auto intro: is_dir_mono)
      then show ?thesis using r False by simp
    next
      case nd: False
      let ?fs1 = "fs\<lparr>dirs := insert (cur @ [c]) (dirs fs)\<rparr>"
      have m: "makedirs_from ?fs1 (cur @ [c]) cs = Inr fs'"
        using Cons.prems False nd by (auto split: if_splits)
      note r = Cons.IH [OF m]
      have "cur @ [c] \<in> dirs fs'" using r by auto
      then have "is_dir fs' (cur @ [c])" by (simp add: is_dir_def)
      then show ?thesis using r False by auto
    qed
  qed
qed

text \<open>The directory of a path string, when it resolves.\<close>

lemma file_in_directory:
  assumes f: "f \<noteq> []" "CHR ''/'' \<notin> set f"
  shows "os_path_join cd f \<noteq> []
       \<and> last (split_path (os_path_join cd f)) = f
       \<and> walk fs (start_location (os_path_join cd f)) (butlast (split_path (os_path_join cd f)))
           = walk fs (start_location cd) (split_path cd)"
proof -
  have rel: "hd f \<noteq> CHR ''/''" using f by (cases f) auto
  have sf: "split_path f = [f]" using f(2) by (rule split_path_plain)
  have ne: "os_path_join cd f \<noteq> []" using f(1) rel by (simp add: os_path_join_def)
  consider (empty) "cd = []" | (slash) cd' where "cd = cd' @ ''/''"
    | (plain) "cd \<noteq> []" "last cd \<noteq> CHR ''/''"
    by (metis append_butlast_last_id)
  then have "last (split_path (os_path_join cd f)) = f
    \<and> walk fs (start_location (os_path_join cd f)) (butlast (split_path (os_path_join cd f)))
           = walk fs (start_location cd) (split_path cd)"
  proof cases
    case empty
    then show ?thesis using rel f(1) sf by (simp add: os_path_join_def start_location_def)
  next
    case slash
    have j: "os_path_join cd f = cd' @ CHR ''/'' # f"
      using slash rel f(1) by (simp add: os_path_join_def)
    have s1: "split_path (os_path_join cd f) = split_path cd' @ [f]"
      unfolding j by (simp add: split_path_append_sep sf)
    have s2: "split_path cd = split_path cd' @ [[]]"
      using slash split_path_append_sep [of cd' "[]"] by simp
    have st: "start_location (os_path_join cd f) = start_location cd"
      unfolding j using slash by (cases cd') (simp_all add: start_location_def)
    show ?thesis
      unfolding s1 s2 st by (simp add: walk_append split: sum.splits)
  next
    case plain
    have j: "os_path_join cd f = cd @ CHR ''/'' # f"
      using plain rel f(1) by (simp add: os_path_join_def)
    have s1: "split_path (os_path_join cd f) = split_path cd @ [f]"
      unfolding j by (simp add: split_path_append_sep sf)
    have st: "start_location (os_path_join cd f) = start_location cd"
      unfolding j using plain by (cases cd) (simp_all add: start_location_def)
    show ?thesis
      unfolding s1 st by simp
  qed
  then show ?thesis using ne by simp
qed

lemma version_file_name:
  "CHR ''/'' \<notin> set v \<Longrightarrow>
     v @ ''.txt'' \<noteq> [] \<and> CHR ''/'' \<notin> set (v @ ''.txt'')
     \<and> v @ ''.txt'' \<noteq> ''.'' \<and> v @ ''.txt'' \<noteq> ''..''"
  by (cases v; cases "tl v"; cases "tl (tl v)") auto

lemma write_text_in_directory:
  assumes f: "f \<noteq> []" "CHR ''/'' \<notin> set f" "f \<noteq> ''.''" "f \<noteq> ''..''"
    and d: "walk fs (start_location cd) (split_path cd) = Inr d"
  shows "write_text fs (os_path_join cd f) txt =
     (if is_dir fs (d @ [f]) then Inl (IsADirectoryError (os_path_join cd f), fs)
      else Inr (fs\<lparr>files := (files fs)(d @ [f] \<mapsto> txt)\<rparr>))"
  using file_in_directory [OF f(1,2), of cd fs] f d
  by (simp add: write_text_def Let_def)

lemma read_text_in_directory:
  assumes f: "f \<noteq> []" "CHR ''/'' \<notin> set f" "f \<noteq> ''.''" "f \<noteq> ''..''"
    and d: "walk fs (start_location cd) (split_path cd) = Inr d"
    and nd: "\<not> is_dir fs (d @ [f])"
    and c: "files fs (d @ [f]) = Some txt"
  shows "os_path_exists fs (os_path_join cd f)"
    and "read_text fs (os_path_join cd f) = Inr (universal_newlines txt)"
  using file_in_directory [OF f(1,2), of cd fs] f d nd c
  by (simp_all add: os_path_exists_def read_text_def Let_def)

lemma write_text_result:
  assumes "write_text fs p txt = Inr fs'"
  shows "dirs fs' = dirs fs \<and> (\<exists>t. files fs' = (files fs)(t \<mapsto> txt))"
  using assms
  by (auto simp: write_text_def Let_def split: sum.splits if_splits)

lemma os_makedirs_result:
  assumes "os_makedirs fs cd = Inr fs1"
  shows "cd \<noteq> [] \<and> files fs1 = files fs \<and> dirs fs \<subseteq> dirs fs1
       \<and> (\<exists>d. walk fs1 (start_location cd) (split_path cd) = Inr d)"
proof -
  have ne: "cd \<noteq> []" using assms by (auto simp: os_makedirs_def split: if_splits)
  then have "makedirs_from fs (start_location cd) (split_path cd) = Inr fs1"
    using assms by (simp add: os_makedirs_def)
  then show ?thesis using ne makedirs_from_result by blast
qed

lemma os_makedirs_existing:
  assumes "walk fs (start_location cd) (split_path cd) = Inr d" "cd \<noteq> []"
  shows "os_makedirs fs cd = Inr fs"
  using assms by (simp add: os_makedirs_def makedirs_from_existing)

lemma load_component_in_directory:
  assumes d: "walk fs (start_location (os_path_join (components_dir self) cname))
                (split_path (os_path_join (components_dir self) cname)) = Inr d"
    and v: "CHR ''/'' \<notin> set v"
    and nd: "\<not> is_dir fs (d @ [v @ ''.txt''])"
    and c: "files fs (d @ [v @ ''.txt'']) = Some txt"
  shows "load_component self fs cname v = Inr (Some (universal_newlines txt))"
proof -
  note n = version_file_name [OF v]
  have f: "v @ ''.txt'' \<noteq> []" "CHR ''/'' \<notin> set (v @ ''.txt'')"
    "v @ ''.txt'' \<noteq> ''.''" "v @ ''.txt'' \<noteq> ''..''"
    using n by blast+
  show ?thesis
    using read_text_in_directory [OF f d nd c]
    by (simp add: load_component_def Let_def)
qed

text \<open>What a save that returns has done.\<close>

lemma save_component_current:
  assumes s: "save_component self fs stamp cname txt version = Inr (p, fs')"
  shows "\<exists>d. walk fs' (start_location (os_path_join (components_dir self) cname))
                (split_path (os_path_join (components_dir self) cname)) = Inr d
           \<and> \<not> is_dir fs' (d @ [''current.txt''])
           \<and> files fs' (d @ [''current.txt'']) = Some txt"
proof -
  let ?cd = "os_path_join (components_dir self) cname"
  let ?e = "case version of None \<Rightarrow> stamp | Some v \<Rightarrow> if v = [] then stamp else v"
  obtain fs1 where m: "os_makedirs fs ?cd = Inr fs1"
    using s by (auto simp: save_component_def Let_def split: sum.splits)
  obtain fs2 where w1: "write_text fs1 (os_path_join ?cd ''current.txt'') txt = Inr fs2"
    using s m by (auto simp: save_component_def Let_def split: sum.splits)
  have w2: "write_text fs2 (os_path_join ?cd (?e @ ''.txt'')) txt = Inr fs'"
    using s m w1 by (auto simp: save_component_def Let_def split: sum.splits)
  obtain d where d: "walk fs1 (start_location ?cd) (split_path ?cd) = Inr d"
    using os_makedirs_result [OF m] by blast
  have c: "''current.txt'' \<noteq> []" "CHR ''/'' \<notin> set ''current.txt''"
    "''current.txt'' \<noteq> ''.''" "''current.txt'' \<noteq> ''..''"
    by simp_all
  have nd1: "\<not> is_dir fs1 (d @ [''current.txt''])"
    and fs2: "fs2 = fs1\<lparr>files := (files fs1)(d @ [''current.txt''] \<mapsto> txt)\<rparr>"
    using w1 unfolding write_text_in_directory [OF c d] by (auto split: if_splits)
  obtain t where r: "dirs fs' = dirs fs2" "files fs' = (files fs2)(t \<mapsto> txt)"
    using write_text_result [OF w2] by blast
  have dirs: "dirs fs' = dirs fs1" using r(1) fs2 by simp
  have "walk fs' (start_location ?cd) (split_path ?cd) = Inr d"
    using d dirs by (intro walk_mono [OF d]) simp
  moreover have "\<not> is_dir fs' (d @ [''current.txt''])"
    using nd1 dirs by (simp add: is_dir_def)
  moreover have "files fs' (d @ [''current.txt'']) = Some txt"
    using r(2) fs2 by simp
  ultimately show ?thesis by blast
qed

lemma save_component_version:
  assumes s: "save_component self fs stamp cname txt version = Inr (p, fs')"
    and e: "(case version of None \<Rightarrow> stamp | Some v \<Rightarrow> if v = [] then stamp else v) = e"
      "CHR ''/'' \<notin> set e"
  shows "\<exists>d fs1. os_makedirs fs (os_path_join (components_dir self) cname) = Inr fs1
           \<and> walk fs1 (start_location (os_path_join (components_dir self) cname))
                (split_path (os_path_join (components_dir self) cname)) = Inr d
           \<and> \<not> is_dir fs1 (d @ [e @ ''.txt''])
           \<and> fs' = fs1\<lparr>files := (files fs1)(d @ [''current.txt''] \<mapsto> txt, d @ [e @ ''.txt''] \<mapsto> txt)\<rparr>"
proof -
  let ?cd = "os_path_join (components_dir self) cname"
  obtain fs1 where m: "os_makedirs fs ?cd = Inr fs1"
    using s by (auto simp: save_component_def Let_def split: sum.splits)
  obtain fs2 where w1: "write_text fs1 (os_path_join ?cd ''current.txt'') txt = Inr fs2"
    using s m by (auto simp: save_component_def Let_def split: sum.splits)
  have w2: "write_text fs2 (os_path_join ?cd (e @ ''.txt'')) txt = Inr fs'"
    using s m w1 e(1) by (auto simp: save_component_def Let_def split: sum.splits)
  obtain d where d: "walk fs1 (start_location ?cd) (split_path ?cd) = Inr d"
    using os_makedirs_result [OF m] by blast
  have c: "''current.txt'' \<noteq> []" "CHR ''/'' \<notin> set ''current.txt''"
    "''current.txt'' \<noteq> ''.''" "''current.txt'' \<noteq> ''..''"
    by simp_all
  have fs2: "fs2 = fs1\<lparr>files := (files fs1)(d @ [''current.txt''] \<mapsto> txt)\<rparr>"
    using w1 unfolding write_text_in_directory [OF c d] by (auto split: if_splits)
  have d2: "walk fs2 (start_location ?cd) (split_path ?cd) = Inr d"
    using fs2 by (intro walk_mono [OF d]) simp
  note n = version_file_name [OF e(2)]
  have f: "e @ ''.txt'' \<noteq> []" "CHR ''/'' \<notin> set (e @ ''.txt'')"
    "e @ ''.txt'' \<noteq> ''.''" "e @ ''.txt'' \<noteq> ''..''"
    using n by blast+
  have nd2: "\<not> is_dir fs2 (d @ [e @ ''.txt''])"
    and fs': "fs' = fs2\<lparr>files := (files fs2)(d @ [e @ ''.txt''] \<mapsto> txt)\<rparr>"
    using w2 unfolding write_text_in_directory [OF f d2] by (auto split: if_splits)
  have "\<not> is_dir fs1 (d @ [e @ ''.txt''])" using nd2 fs2 by (simp add: is_dir_def)
  moreover have "fs' = fs1\<lparr>files := (files fs1)(d @ [''current.txt''] \<mapsto> txt, d @ [e @ ''.txt''] \<mapsto> txt)\<rparr>"
    using fs' fs2 by simp
  ultimately show ?thesis using m d by blast
qed

lemma universal_newlines_id:
  "CHR 0x0D \<notin> set s \<Longrightarrow> universal_newlines s = s"
  by (induction s rule: universal_newlines.induct) auto

lemma load_current_after_save:
  assumes "save_component self fs stamp cname txt version = Inr (p, fs')"
  shows "load_current self fs' cname = Inr (Some (universal_newlines txt))"
proof -
  obtain d where d: "walk fs' (start_location (os_path_join (components_dir self) cname))
                (split_path (os_path_join (components_dir self) cname)) = Inr d"
    and nd: "\<not> is_dir fs' (d @ [''current'' @ ''.txt''])"
    and c: "files fs' (d @ [''current'' @ ''.txt'']) = Some txt"
    using save_component_current [OF assms] by auto
  have v: "CHR ''/'' \<notin> set ''current''" by simp
  show ?thesis
    unfolding load_current_def by (rule load_component_in_directory [OF d v nd c])
qed

text \<open>
  A save returns once the component directory could be created and neither target is a
  directory.
\<close>

lemma save_component_returns:
  assumes m: "os_makedirs fs (os_path_join (components_dir self) cname) = Inr fs1"
    and d: "walk fs1 (start_location (os_path_join (components_dir self) cname))
              (split_path (os_path_join (components_dir self) cname)) = Inr d"
    and e: "(case version of None \<Rightarrow> stamp | Some v \<Rightarrow> if v = [] then stamp else v) = e"
      "CHR ''/'' \<notin> set e"
    and nd: "\<not> is_dir fs1 (d @ [''current.txt''])" "\<not> is_dir fs1 (d @ [e @ ''.txt''])"
  shows "save_component self fs stamp cname txt version =
     Inr (os_path_join (os_path_join (components_dir self) cname) ''current.txt'',
          fs1\<lparr>files := (files fs1)(d @ [''current.txt''] \<mapsto> txt, d @ [e @ ''.txt''] \<mapsto> txt)\<rparr>)"
proof -
  let ?cd = "os_path_join (components_dir self) cname"
  let ?fs2 = "fs1\<lparr>files := (files fs1)(d @ [''current.txt''] \<mapsto> txt)\<rparr>"
  have c: "''current.txt'' \<noteq> []" "CHR ''/'' \<notin> set ''current.txt''"
    "''current.txt'' \<noteq> ''.''" "''current.txt'' \<noteq> ''..''"
    by simp_all
  have w1: "write_text fs1 (os_path_join ?cd ''current.txt'') txt = Inr ?fs2"
    using nd(1) by (simp add: write_text_in_directory [OF c d])
  have d2: "walk ?fs2 (start_location ?cd) (split_path ?cd) = Inr d"
    by (intro walk_mono [OF d]) simp
  note n = version_file_name [OF e(2)]
  have f: "e @ ''.txt'' \<noteq> []" "CHR ''/'' \<notin> set (e @ ''.txt'')"
    "e @ ''.txt'' \<noteq> ''.''" "e @ ''.txt'' \<noteq> ''..''"
    using n by blast+
  have nd2: "\<not> is_dir ?fs2 (d @ [e @ ''.txt''])" using nd(2) by (simp add: is_dir_def)
  have w2: "write_text ?fs2 (os_path_join ?cd (e @ ''.txt'')) txt
      = Inr (fs1\<lparr>files := (files fs1)(d @ [''current.txt''] \<mapsto> txt, d @ [e @ ''.txt''] \<mapsto> txt)\<rparr>)"
    using nd2 by (simp add: write_text_in_directory [OF f d2])
  show ?thesis
    using m w1 w2 e(1) by (simp add: save_component_def Let_def)
qed

lemmas storage_eval = example_storage_def example_filesystem_def empty_filesystem_def
  BookStorage_init_def BookStorage_paths_def os_path_join_def os_makedirs_def
  start_location_def is_dir_def save_component_def write_text_def saved_def Let_def
  load_component_def load_current_def os_path_exists_def read_text_def parent_def

lemma example_saves:
  "save_component example_storage example_filesystem ''20240101_100000'' ''ch1'' ''X'' None
     = Inr (''books/book_1/components/ch1/current.txt'',
            saved example_filesystem ''20240101_100000'' ''ch1'' ''X'' None)"
  "save_component example_storage example_filesystem ''20240101_100200'' ''ch1'' ''Y'' (Some ''v1'')
     = Inr (''books/book_1/components/ch1/current.txt'',
            saved example_filesystem ''20240101_100200'' ''ch1'' ''Y'' (Some ''v1''))"
  "save_component example_storage
       (saved example_filesystem ''20240101_100200'' ''ch1'' ''Y'' (Some ''v1''))
       ''20240101_100500'' ''ch1'' ''Z'' None
     = Inr (''books/book_1/components/ch1/current.txt'',
            saved (saved example_filesystem ''20240101_100200'' ''ch1'' ''Y'' (Some ''v1''))
              ''20240101_100500'' ''ch1'' ''Z'' None)"
  by (simp_all add: storage_eval)

text \<open>
  An empty version label is replaced by the clock label. With a separator in the label
  the version file lies in a directory that was not created: the call raises after
  \<^verbatim>\<open>current.txt\<close> was written.
\<close>

lemma empty_label_is_replaced:
  "load_component example_storage
     (saved example_filesystem ''20240101_100200'' ''ch1'' ''Y'' (Some '''')) ''ch1'' '''' = Inr None
   \<and> load_component example_storage
     (saved example_filesystem ''20240101_100200'' ''ch1'' ''Y'' (Some '''')) ''ch1'' ''20240101_100200''
       = Inr (Some ''Y'')"
  by (simp add: storage_eval)

lemma label_with_separator_raises:
  "save_component example_storage example_filesystem ''20240101_100200'' ''ch1'' ''Y'' (Some ''drafts/v2'')
     = Inl (FileNotFoundError ''drafts'',
            saved example_filesystem ''20240101_100200'' ''ch1'' ''Y'' (Some ''drafts/v2''))
   \<and> load_current example_storage
        (saved example_filesystem ''20240101_100200'' ''ch1'' ''Y'' (Some ''drafts/v2'')) ''ch1''
       = Inr (Some ''Y'')"
  by (simp add: storage_eval)

text \<open>
  C8, as stated, fails for content with a carriage return: the file is read in text mode,
  which translates the carriage return, so \<^verbatim>\<open>load_component\<close> returns a text that differs
  from the one saved.
\<close>

theorem component_round_trip_counterexample:
  "save_component example_storage example_filesystem ''20240101_100000'' ''ch1''
       [CHR ''a'', CHR 0x0D, CHR ''b''] None
     = Inr (''books/book_1/components/ch1/current.txt'',
            saved example_filesystem ''20240101_100000'' ''ch1'' [CHR ''a'', CHR 0x0D, CHR ''b''] None)
   \<and> load_current example_storage
        (saved example_filesystem ''20240101_100000'' ''ch1'' [CHR ''a'', CHR 0x0D, CHR ''b''] None)
        ''ch1''
       = Inr (Some [CHR ''a'', CHR 0x0A, CHR ''b''])
   \<and> [CHR ''a'', CHR 0x0A, CHR ''b''] \<noteq> [CHR ''a'', CHR 0x0D, CHR ''b'']"
  by (simp add: storage_eval)

text \<open>
  C8, amended. For every component name, every content and a version label that is
  non-empty, is not \<open>current\<close> and contains no path separator, whenever the saves return:
  after saving \<open>x\<close> without a label, loading the default version gives \<open>x\<close> with its
  line endings translated; after saving \<open>y\<close> under the label, loading the label gives the
  same for \<open>y\<close>, and so does loading the default version; after a further save of \<open>z\<close>
  without a label, whose clock label differs from the label, loading the label still gives
  \<open>y\<close> and loading the default version gives \<open>z\<close>. For content without a carriage return
  the text loaded is exactly the text saved.
\<close>

theorem component_round_trip:
  assumes label: "label \<noteq> []" "label \<noteq> ''current''" "CHR ''/'' \<notin> set label"
    and stamp: "CHR ''/'' \<notin> set stamp3" "stamp3 \<noteq> label"
    and s1: "save_component self fs stamp1 component_name x None = Inr (p1, fs1)"
    and s2: "save_component self fs' stamp2 component_name y (Some label) = Inr (p2, fs2)"
    and s3: "save_component self fs2 stamp3 component_name z None = Inr (p3, fs3)"
  shows "load_current self fs1 component_name = Inr (Some (universal_newlines x))
       \<and> load_component self fs2 component_name label = Inr (Some (universal_newlines y))
       \<and> load_current self fs2 component_name = Inr (Some (universal_newlines y))
       \<and> load_component self fs3 component_name label = Inr (Some (universal_newlines y))
       \<and> load_current self fs3 component_name = Inr (Some (universal_newlines z))
       \<and> (CHR 0x0D \<notin> set x \<longrightarrow> load_current self fs1 component_name = Inr (Some x))
       \<and> (CHR 0x0D \<notin> set y \<longrightarrow>
             load_component self fs2 component_name label = Inr (Some y)
             \<and> load_current self fs2 component_name = Inr (Some y)
             \<and> load_component self fs3 component_name label = Inr (Some y))
       \<and> (CHR 0x0D \<notin> set z \<longrightarrow> load_current self fs3 component_name = Inr (Some z))"
proof -
  let ?cd = "os_path_join (components_dir self) component_name"
  have 1: "load_current self fs1 component_name = Inr (Some (universal_newlines x))"
    using s1 by (rule load_current_after_save)
  have 3: "load_current self fs2 component_name = Inr (Some (universal_newlines y))"
    using s2 by (rule load_current_after_save)
  have 5: "load_current self fs3 component_name = Inr (Some (universal_newlines z))"
    using s3 by (rule load_current_after_save)
  have e2: "(case Some label of None \<Rightarrow> stamp2 | Some v \<Rightarrow> if v = [] then stamp2 else v) = label"
    using label(1) by simp
  obtain d fsA where mA: "os_makedirs fs' ?cd = Inr fsA"
    and dA: "walk fsA (start_location ?cd) (split_path ?cd) = Inr d"
    and ndA: "\<not> is_dir fsA (d @ [label @ ''.txt''])"
    and fs2: "fs2 = fsA\<lparr>files := (files fsA)(d @ [''current.txt''] \<mapsto> y, d @ [label @ ''.txt''] \<mapsto> y)\<rparr>"
    using save_component_version [OF s2 e2 label(3)] by blast
  have ne: "?cd \<noteq> []" using os_makedirs_result [OF mA] by simp
  have dirs2: "dirs fs2 = dirs fsA" using fs2 by simp
  have d2: "walk fs2 (start_location ?cd) (split_path ?cd) = Inr d"
    using dirs2 by (intro walk_mono [OF dA]) simp
  have nd2: "\<not> is_dir fs2 (d @ [label @ ''.txt''])"
    using ndA dirs2 by (simp add: is_dir_def)
  have c2: "files fs2 (d @ [label @ ''.txt'']) = Some y"
    using fs2 by simp
  have 2: "load_component self fs2 component_name label = Inr (Some (universal_newlines y))"
    by (rule load_component_in_directory [OF d2 label(3) nd2 c2])
  have e3: "(case None of None \<Rightarrow> stamp3 | Some v \<Rightarrow> if v = [] then stamp3 else v) = stamp3"
    by simp
  obtain d' fsB where mB: "os_makedirs fs2 ?cd = Inr fsB"
    and dB: "walk fsB (start_location ?cd) (split_path ?cd) = Inr d'"
    and fs3: "fs3 = fsB\<lparr>files := (files fsB)(d' @ [''current.txt''] \<mapsto> z, d' @ [stamp3 @ ''.txt''] \<mapsto> z)\<rparr>"
    using save_component_version [OF s3 e3 stamp(1)] by blast
  have same: "fsB = fs2" using mB os_makedirs_existing [OF d2 ne] by simp
  then have dd: "d' = d" using dB d2 by simp
  have dirs3: "dirs fs3 = dirs fs2" using fs3 same by simp
  have d3: "walk fs3 (start_location ?cd) (split_path ?cd) = Inr d"
    using dirs3 by (intro walk_mono [OF d2]) simp
  have nd3: "\<not> is_dir fs3 (d @ [label @ ''.txt''])"
    using nd2 dirs3 by (simp add: is_dir_def)
  have "label @ ''.txt'' \<noteq> ''current.txt''" "label @ ''.txt'' \<noteq> stamp3 @ ''.txt''"
    using label(2) stamp(2) by auto
  then have c3: "files fs3 (d @ [label @ ''.txt'']) = Some y"
    using fs3 same dd c2 by simp
  have 4: "load_component self fs3 component_name label = Inr (Some (universal_newlines y))"
    by (rule load_component_in_directory [OF d3 label(3) nd3 c3])
  show ?thesis
    using 1 2 3 4 5 by (simp add: universal_newlines_id)
qed

theorem component_round_trip_witness:
  "''v1'' \<noteq> [] \<and> ''v1'' \<noteq> ''current'' \<and> CHR ''/'' \<notin> set ''v1''
   \<and> CHR ''/'' \<notin> set ''20240101_100500'' \<and> ''20240101_100500'' \<noteq> ''v1''
   \<and> save_component example_storage example_filesystem ''20240101_100000'' ''ch1'' ''X'' None
       = Inr (''books/book_1/components/ch1/current.txt'',
              saved example_filesystem ''20240101_100000'' ''ch1'' ''X'' None)
   \<and> save_component example_storage example_filesystem ''20240101_100200'' ''ch1'' ''Y'' (Some ''v1'')
       = Inr (''books/book_1/components/ch1/current.txt'',
              saved example_filesystem ''20240101_100200'' ''ch1'' ''Y'' (Some ''v1''))
   \<and> save_component example_storage
         (saved example_filesystem ''20240101_100200'' ''ch1'' ''Y'' (Some ''v1''))
         ''20240101_100500'' ''ch1'' ''Z'' None
       = Inr (''books/book_1/components/ch1/current.txt'',
              saved (saved example_filesystem ''20240101_100200'' ''ch1'' ''Y'' (Some ''v1''))
                ''20240101_100500'' ''ch1'' ''Z'' None)
   \<and> CHR 0x0D \<notin> set ''X'' \<and> CHR 0x0D \<notin> set ''Y'' \<and> CHR 0x0D \<notin> set ''Z''
   \<and> load_current example_storage
        (saved example_filesystem ''20240101_100000'' ''ch1'' ''X'' None) ''ch1'' = Inr (Some ''X'')
   \<and> load_component example_storage
        (saved example_filesystem ''20240101_100200'' ''ch1'' ''Y'' (Some ''v1'')) ''ch1'' ''v1''
       = Inr (Some ''Y'')
   \<and> load_current example_storage
        (saved example_filesystem ''20240101_100200'' ''ch1'' ''Y'' (Some ''v1'')) ''ch1''
       = Inr (Some ''Y'')
   \<and> load_component example_storage
        (saved (saved example_filesystem ''20240101_100200'' ''ch1'' ''Y'' (Some ''v1''))
           ''20240101_100500'' ''ch1'' ''Z'' None) ''ch1'' ''v1''
       = Inr (Some ''Y'')
   \<and> load_current example_storage
        (saved (saved example_filesystem ''20240101_100200'' ''ch1'' ''Y'' (Some ''v1''))
           ''20240101_100500'' ''ch1'' ''Z'' None) ''ch1''
       = Inr (Some ''Z'')"
proof -
  have h: "''v1'' \<noteq> []" "''v1'' \<noteq> ''current''" "CHR ''/'' \<notin> set ''v1''"
    "CHR ''/'' \<notin> set ''20240101_100500''" "''20240101_100500'' \<noteq> ''v1''"
    by simp_all
  have r: "CHR 0x0D \<notin> set ''X''" "CHR 0x0D \<notin> set ''Y''" "CHR 0x0D \<notin> set ''Z''"
    by simp_all
  note t = component_round_trip [OF h example_saves]
  note u = t [THEN conjunct2, THEN conjunct2, THEN conjunct2, THEN conjunct2, THEN conjunct2]
  note x = u [THEN conjunct1, THEN mp, OF r(1)]
  note y = u [THEN conjunct2, THEN conjunct1, THEN mp, OF r(2)]
  note z = u [THEN conjunct2, THEN conjunct2, THEN mp, OF r(3)]
  show ?thesis
    by (intro conjI h example_saves r x y [THEN conjunct1] y [THEN conjunct2, THEN conjunct1]
        y [THEN conjunct2, THEN conjunct2] z)
qed

section \<open>Boundary cases\<close>

text \<open>
  Whenever \<^verbatim>\<open>start_phase\<close> returns, the named phase is Running and is the current phase.
\<close>

lemma start_phase_sets_current:
  assumes "start_phase wp w n = Inr w'"
  shows "current_phase (workflow w') = Some n
       \<and> map_option status (phases (workflow w') n) = Some P_RUNNING"
proof (cases "phases (workflow w) n")
  case None
  then show ?thesis using assms by (simp add: start_phase_unknown)
next
  case (Some ph)
  then show ?thesis using assms
    by (auto simp: start_phase.simps time_time_def Let_def Phase_start_def
             split: option.splits sum.splits)
qed

text \<open>
  The conditions on the configured sequence are needed: an empty phase name is falsy in
  \<^verbatim>\<open>if not self.current_phase\<close>, so \<^verbatim>\<open>complete_phase\<close> does nothing for it, and with a
  repeated name \<^verbatim>\<open>list.index\<close> finds the first position again.
\<close>

lemma empty_phase_name_stalls:
  "\<exists>w'. run [''''] (new_world [''''] ''book_1'' example_clock) [Start, Complete_phase] = Inr w'
     \<and> wf_status (workflow w') = W_RUNNING
     \<and> current_phase (workflow w') = Some ''''
     \<and> map_option status (phases (workflow w') '''') = Some P_RUNNING"
  by (simp add: eval_defs Phase_start_def)

lemma repeated_phase_name_cycles:
  "\<exists>w'. run [''a'', ''b'', ''a''] (new_world [''a'', ''b'', ''a''] ''book_1'' example_clock)
            [Start, Complete_phase, Complete_phase, Complete_phase] = Inr w'
     \<and> wf_status (workflow w') = W_RUNNING
     \<and> current_phase (workflow w') = Some ''b''"
  by (simp add: eval_defs)

end
